theory Spec2Isabelle
  imports Main "HOL-Library.Sublist" "HOL-Library.List_Lexorder" "HOL-Library.Option_ord"
begin

section \<open>Python strings\<close>

text \<open>
  A Python \<^verbatim>\<open>str\<close> is a sequence of Unicode code points; \<^verbatim>\<open>len\<close>, slicing, \<^verbatim>\<open>in\<close>,
  \<^verbatim>\<open>strip\<close> and the \<^verbatim>\<open>re\<close> module all work per code point. A string is therefore a list
  of code points (natural numbers), not a list of bytes. \<open>py\<close> embeds an ASCII
  literal.
\<close>

type_synonym pystr = "nat list"

definition py :: "string \<Rightarrow> pystr" where
  "py s = map of_char s"

text \<open>
  \<^verbatim>\<open>str.isspace\<close> per code point. \<^verbatim>\<open>str.strip()\<close> and the regular expression class
  \<^verbatim>\<open>\s\<close> (on \<^verbatim>\<open>str\<close> patterns) use this same set: U+0009..U+000D, U+001C..U+0020,
  U+0085, U+00A0, U+1680, U+2000..U+200A, U+2028, U+2029, U+202F, U+205F, U+3000.
\<close>

definition py_isspace :: "nat \<Rightarrow> bool" where
  "py_isspace c \<longleftrightarrow>
     (9 \<le> c \<and> c \<le> 13) \<or> (28 \<le> c \<and> c \<le> 32) \<or> c = 133 \<or> c = 160 \<or> c = 5760 \<or>
     (8192 \<le> c \<and> c \<le> 8202) \<or> c = 8232 \<or> c = 8233 \<or> c = 8239 \<or> c = 8287 \<or> c = 12288"

text \<open>\<^verbatim>\<open>s.strip()\<close>: drop leading and trailing whitespace.\<close>

definition py_strip :: "pystr \<Rightarrow> pystr" where
  "py_strip s = rev (dropWhile py_isspace (rev (dropWhile py_isspace s)))"

text \<open>\<^verbatim>\<open>s.replace(old, new)\<close> for one-character \<^verbatim>\<open>old\<close> and \<^verbatim>\<open>new\<close>.\<close>

definition py_replace1 :: "nat \<Rightarrow> nat \<Rightarrow> pystr \<Rightarrow> pystr" where
  "py_replace1 old new s = map (\<lambda>c. if c = old then new else c) s"

text \<open>\<^verbatim>\<open>k in t\<close> on strings: \<open>k\<close> occurs in \<open>t\<close> as a contiguous substring.\<close>

fun py_in :: "pystr \<Rightarrow> pystr \<Rightarrow> bool" where
  "py_in k [] = (k = [])"
| "py_in k (c # cs) = (prefix k (c # cs) \<or> py_in k cs)"

text \<open>
  \<^verbatim>\<open>re.sub(r"[...]+", repl, s)\<close> for a pattern that is one character class under \<^verbatim>\<open>+\<close>:
  scanning from the left, every maximal run of characters of the class is replaced by
  \<open>repl\<close> (the quantifier is greedy, matches do not overlap).
\<close>

function re_sub_runs :: "(nat \<Rightarrow> bool) \<Rightarrow> pystr \<Rightarrow> pystr \<Rightarrow> pystr" where
  "re_sub_runs p repl [] = []"
| "re_sub_runs p repl (c # cs) =
     (if p c then repl @ re_sub_runs p repl (dropWhile p cs)
      else c # re_sub_runs p repl cs)"
  by pat_completeness auto
termination
  by (relation "measure (\<lambda>(p, repl, s). length s)")
     (auto simp: le_imp_less_Suc length_dropWhile_le)

section \<open>core/storage.py\<close>

text \<open>
  \<^verbatim>\<open>
  def safe_filename(name: str) -> str:
      name = name.strip().replace("\\", "_").replace("/", "_")
      name = re.sub(r"[^a-zA-Z0-9._-]+", "_", name)
      return name[:180] if len(name) > 180 else name
  \<close>
  \<open>safe_char\<close> is the character class \<^verbatim>\<open>[a-zA-Z0-9._-]\<close>; 92 is the backslash, 47 the
  slash, 95 the underscore.
\<close>

definition safe_char :: "nat \<Rightarrow> bool" where
  "safe_char c \<longleftrightarrow>
     (97 \<le> c \<and> c \<le> 122) \<or> (65 \<le> c \<and> c \<le> 90) \<or> (48 \<le> c \<and> c \<le> 57) \<or>
     c = 46 \<or> c = 95 \<or> c = 45"

definition safe_filename :: "pystr \<Rightarrow> pystr" where
  "safe_filename name =
     (let name1 = py_replace1 47 95 (py_replace1 92 95 (py_strip name));
          name2 = re_sub_runs (\<lambda>c. \<not> safe_char c) [95] name1
      in if length name2 > 180 then take 180 name2 else name2)"

text \<open>
  The persisted layout is \<^verbatim>\<open>uploads/<document_id>/<sanitized_filename>\<close>. A path is its
  list of components; \<open>path_resolve\<close> resolves it the way the file system does, from
  left to right: an empty component and \<^verbatim>\<open>.\<close> stay in place, \<^verbatim>\<open>..\<close> steps to the parent.
  \<open>path_split\<close> cuts a string at every slash.
\<close>

fun path_split :: "pystr \<Rightarrow> pystr list" where
  "path_split [] = [[]]"
| "path_split (c # cs) =
     (if c = 47 then [] # path_split cs
      else (case path_split cs of [] \<Rightarrow> [[c]] | w # ws \<Rightarrow> (c # w) # ws))"

fun path_resolve_from :: "pystr list \<Rightarrow> pystr list \<Rightarrow> pystr list" where
  "path_resolve_from acc [] = rev acc"
| "path_resolve_from acc (w # ws) =
     (if w = [] \<or> w = [46] then path_resolve_from acc ws
      else if w = [46, 46] then path_resolve_from (tl acc) ws
      else path_resolve_from (w # acc) ws)"

definition path_resolve :: "pystr list \<Rightarrow> pystr list" where
  "path_resolve ws = path_resolve_from [] ws"

text \<open>
  \<open>stays_inside dir name\<close>: the file \<open>dir / name\<close> resolves to a location strictly below
  the directory \<open>dir\<close> (given by its components).
\<close>

definition stays_inside :: "pystr list \<Rightarrow> pystr \<Rightarrow> bool" where
  "stays_inside dir name \<longleftrightarrow>
     strict_prefix (path_resolve dir) (path_resolve (dir @ path_split name))"

subsection \<open>Properties of \<open>safe_filename\<close>\<close>

lemma re_sub_runs_safe:
  "set (re_sub_runs (\<lambda>c. \<not> safe_char c) [95] s) \<subseteq> {c. safe_char c}"
  by (induction "\<lambda>c. \<not> safe_char c" "[95::nat]" s rule: re_sub_runs.induct)
     (auto simp: safe_char_def)

lemma re_sub_runs_id:
  "\<forall>c\<in>set s. \<not> p c \<Longrightarrow> re_sub_runs p repl s = s"
  by (induction s) auto

lemma safe_char_not_space: "safe_char c \<Longrightarrow> \<not> py_isspace c"
  by (auto simp: safe_char_def py_isspace_def)

lemma dropWhile_none: "\<forall>c\<in>set s. \<not> p c \<Longrightarrow> dropWhile p s = s"
  by (cases s) auto

lemma py_strip_id:
  assumes "\<forall>c\<in>set s. \<not> py_isspace c"
  shows "py_strip s = s"
proof -
  have "dropWhile py_isspace s = s"
    using assms by (rule dropWhile_none)
  moreover have "dropWhile py_isspace (rev s) = rev s"
    using assms by (intro dropWhile_none) simp
  ultimately show ?thesis
    by (simp add: py_strip_def)
qed

lemma py_replace1_id: "old \<notin> set s \<Longrightarrow> py_replace1 old new s = s"
  by (induction s) (auto simp: py_replace1_def)

lemma safe_filename_chars: "set (safe_filename name) \<subseteq> {c. safe_char c}"
proof -
  let ?r = "re_sub_runs (\<lambda>c. \<not> safe_char c) [95]
              (py_replace1 47 95 (py_replace1 92 95 (py_strip name)))"
  have "set (take 180 ?r) \<subseteq> set ?r"
    by (rule set_take_subset)
  with re_sub_runs_safe [of "py_replace1 47 95 (py_replace1 92 95 (py_strip name))"]
  show ?thesis
    by (auto simp: safe_filename_def Let_def)
qed

lemma safe_filename_length: "length (safe_filename name) \<le> 180"
  by (simp add: safe_filename_def Let_def)

lemma safe_filename_fixed:
  assumes "\<forall>c\<in>set s. safe_char c" and "length s \<le> 180"
  shows "safe_filename s = s"
proof -
  have 1: "py_strip s = s"
    using assms(1) by (intro py_strip_id) (auto dest: safe_char_not_space)
  have 2: "py_replace1 92 95 s = s" "py_replace1 47 95 s = s"
    using assms(1) by (auto intro!: py_replace1_id simp: safe_char_def)
  have 3: "re_sub_runs (\<lambda>c. \<not> safe_char c) [95] s = s"
    using assms(1) by (intro re_sub_runs_id) simp
  show ?thesis
    using assms(2) by (simp add: safe_filename_def Let_def 1 2 3)
qed

lemma safe_filename_idempotent: "safe_filename (safe_filename name) = safe_filename name"
  using safe_filename_chars [of name] safe_filename_length [of name]
  by (intro safe_filename_fixed) auto

lemma safe_filename_no_separator:
  "47 \<notin> set (safe_filename name) \<and> 92 \<notin> set (safe_filename name)"
  using safe_filename_chars [of name] by (auto simp: safe_char_def)

lemma path_split_no_slash: "47 \<notin> set s \<Longrightarrow> path_split s = [s]"
  by (induction s) auto

lemma path_resolve_from_snoc:
  "w \<noteq> [] \<Longrightarrow> w \<noteq> [46] \<Longrightarrow> w \<noteq> [46, 46] \<Longrightarrow>
   path_resolve_from acc (ws @ [w]) = path_resolve_from acc ws @ [w]"
  by (induction ws arbitrary: acc) auto

lemma safe_filename_stays_inside:
  assumes "safe_filename name \<noteq> []" and "safe_filename name \<noteq> [46]"
    and "safe_filename name \<noteq> [46, 46]"
  shows "stays_inside dir (safe_filename name)"
proof -
  have "path_split (safe_filename name) = [safe_filename name]"
    using safe_filename_no_separator [of name] by (simp add: path_split_no_slash)
  then show ?thesis
    using assms
    by (simp add: stays_inside_def path_resolve_def path_resolve_from_snoc strict_prefix_def)
qed

text \<open>
  C1. \<open>safe_filename\<close> is idempotent and its result has no path separator (the two
  lemmas above), but the result can still be the name \<^verbatim>\<open>..\<close>: the dot is in the allowed
  class, so \<^verbatim>\<open>safe_filename("..")\<close> is \<^verbatim>\<open>..\<close>, and \<^verbatim>\<open>uploads/<document_id>/..\<close> resolves to
  \<^verbatim>\<open>uploads\<close>, outside the per-document upload directory.
\<close>

theorem safe_filename_dotdot_escapes:
  "safe_filename (py ''..'') = py ''..'' \<and>
   path_resolve ([py ''data'', py ''uploads'', py ''0123456789ab'']
                   @ path_split (safe_filename (py ''..'')))
     = [py ''data'', py ''uploads''] \<and>
   \<not> stays_inside [py ''data'', py ''uploads'', py ''0123456789ab'']
         (safe_filename (py ''..''))"
  by (simp add: safe_filename_def py_def py_strip_def py_isspace_def py_replace1_def
      safe_char_def stays_inside_def path_resolve_def)

section \<open>Unicode case tables\<close>

text \<open>
  \<^verbatim>\<open>str.lower()\<close> and the class \<^verbatim>\<open>\d\<close> read tables of the Unicode character database
  that ship with the Python interpreter, not with this repository. They are a parameter
  of the model: \<open>to_lower_full\<close> is the full lower-case mapping of one code point (one or
  more code points), \<open>is_cased\<close> and \<open>is_case_ignorable\<close> are the two properties the
  final-sigma rule consults, \<open>is_decimal\<close> is the category Nd matched by \<^verbatim>\<open>\d\<close>.
\<close>

record ucd =
  to_lower_full :: "nat \<Rightarrow> pystr"
  is_cased :: "nat \<Rightarrow> bool"
  is_case_ignorable :: "nat \<Rightarrow> bool"
  is_decimal :: "nat \<Rightarrow> bool"

text \<open>
  \<^verbatim>\<open>str.lower()\<close> maps every code point through \<open>to_lower_full\<close>, except the capital
  sigma U+03A3 (931): it becomes the final sigma U+03C2 (962) when a cased letter
  precedes it and none follows it (case-ignorable characters skipped on both sides),
  and the small sigma U+03C3 (963) otherwise. \<open>left\<close> is the text to the left of the
  sigma, nearest character first; \<open>right\<close> the text to its right.
\<close>

definition handle_capital_sigma :: "ucd \<Rightarrow> pystr \<Rightarrow> pystr \<Rightarrow> nat" where
  "handle_capital_sigma U left right =
     (let preceded = (case dropWhile (is_case_ignorable U) left of
                        [] \<Rightarrow> False | c # _ \<Rightarrow> is_cased U c);
          followed = (case dropWhile (is_case_ignorable U) right of
                        [] \<Rightarrow> False | c # _ \<Rightarrow> is_cased U c)
      in if preceded \<and> \<not> followed then 962 else 963)"

definition lower_ucs4 :: "ucd \<Rightarrow> pystr \<Rightarrow> nat \<Rightarrow> pystr \<Rightarrow> pystr" where
  "lower_ucs4 U left c right =
     (if c = 931 then [handle_capital_sigma U left right] else to_lower_full U c)"

fun py_lower_from :: "ucd \<Rightarrow> pystr \<Rightarrow> pystr \<Rightarrow> pystr" where
  "py_lower_from U left [] = []"
| "py_lower_from U left (c # cs) =
     lower_ucs4 U left c cs @ py_lower_from U (c # left) cs"

definition py_lower :: "ucd \<Rightarrow> pystr \<Rightarrow> pystr" where
  "py_lower U s = py_lower_from U [] s"

text \<open>
  An excerpt of the Unicode tables, for evaluating examples: it agrees with Unicode 14
  on U+0000..U+00FF, on the Vietnamese letters U+0102/0103, U+0110/0111, U+0128/0129,
  U+0168/0169, U+01A0/01A1, U+01AF/01B0 and U+1EA0..U+1EF9, on U+0130, U+0307 and on
  the three sigmas, and treats every other code point as caseless and not a digit.
\<close>

definition ucd_excerpt :: ucd where
  "ucd_excerpt =
     \<lparr>to_lower_full = (\<lambda>c.
        if (65 \<le> c \<and> c \<le> 90) \<or> (192 \<le> c \<and> c \<le> 222 \<and> c \<noteq> 215) then [c + 32]
        else if c = 304 then [105, 775]
        else if c = 931 then [963]
        else if c = 258 \<or> c = 272 \<or> c = 296 \<or> c = 360 \<or> c = 416 \<or> c = 431 then [c + 1]
        else if 7840 \<le> c \<and> c \<le> 7929 \<and> even c then [c + 1]
        else [c]),
      is_cased = (\<lambda>c.
        (65 \<le> c \<and> c \<le> 90) \<or> (97 \<le> c \<and> c \<le> 122) \<or> c = 170 \<or> c = 181 \<or> c = 186 \<or>
        (192 \<le> c \<and> c \<le> 255 \<and> c \<noteq> 215 \<and> c \<noteq> 247) \<or>
        (258 \<le> c \<and> c \<le> 259) \<or> (272 \<le> c \<and> c \<le> 273) \<or> (296 \<le> c \<and> c \<le> 297) \<or>
        c = 304 \<or> (360 \<le> c \<and> c \<le> 361) \<or> (416 \<le> c \<and> c \<le> 417) \<or>
        (431 \<le> c \<and> c \<le> 432) \<or> c = 931 \<or> c = 962 \<or> c = 963 \<or>
        (7840 \<le> c \<and> c \<le> 7929)),
      is_case_ignorable = (\<lambda>c.
        c = 39 \<or> c = 46 \<or> c = 58 \<or> c = 94 \<or> c = 96 \<or> c = 168 \<or> c = 173 \<or> c = 175 \<or>
        c = 180 \<or> c = 183 \<or> c = 184 \<or> c = 775),
      is_decimal = (\<lambda>c. 48 \<le> c \<and> c \<le> 57)\<rparr>"

section \<open>core/classifier.py\<close>

text \<open>
  \<^verbatim>\<open>
  def normalize_text(s: str) -> str:
      s = (s or "").lower()
      s = re.sub(r"\s+", " ", s).strip()
      return s
  \<close>
  The argument is \<open>None\<close> for Python's \<^verbatim>\<open>None\<close>; \<^verbatim>\<open>s or ""\<close> turns it, like the empty
  string, into the empty string. 32 is the space.
\<close>

definition normalize_text :: "ucd \<Rightarrow> pystr option \<Rightarrow> pystr" where
  "normalize_text U s =
     (let s1 = py_lower U (case s of None \<Rightarrow> [] | Some x \<Rightarrow> x);
          s2 = py_strip (re_sub_runs py_isspace [32] s1)
      in s2)"

subsection \<open>The regular expression of the money test\<close>

text \<open>
  A pattern is a matcher: applied to a text, it returns what remains of the text after
  each way of matching a prefix of it, as Python's backtracking engine explores them.
  \<^verbatim>\<open>re.search\<close> succeeds when the pattern matches at some position of the text.
\<close>

type_synonym matcher = "pystr \<Rightarrow> pystr list"

definition m_class :: "(nat \<Rightarrow> bool) \<Rightarrow> matcher" where
  "m_class p s = (case s of [] \<Rightarrow> [] | c # cs \<Rightarrow> if p c then [cs] else [])"

definition m_lit :: "pystr \<Rightarrow> matcher" where
  "m_lit l s = (if prefix l s then [drop (length l) s] else [])"

definition m_seq :: "matcher \<Rightarrow> matcher \<Rightarrow> matcher" where
  "m_seq a b s = concat (map b (a s))"

definition m_alt :: "matcher \<Rightarrow> matcher \<Rightarrow> matcher" where
  "m_alt a b s = a s @ b s"

text \<open>\<^verbatim>\<open>a{n}\<close>: exactly \<open>n\<close> times.\<close>

fun m_times :: "nat \<Rightarrow> matcher \<Rightarrow> matcher" where
  "m_times 0 a s = [s]"
| "m_times (Suc n) a s = concat (map (m_times n a) (a s))"

text \<open>
  \<^verbatim>\<open>a*\<close>, greedy: as many rounds as possible first, then fewer. A round that consumes
  nothing is not repeated, so at most \<open>length s\<close> rounds can happen on a text \<open>s\<close>; the
  first argument of \<open>m_star_upto\<close> counts them down.
\<close>

fun m_star_upto :: "nat \<Rightarrow> matcher \<Rightarrow> matcher" where
  "m_star_upto 0 a s = [s]"
| "m_star_upto (Suc n) a s =
     concat (map (m_star_upto n a) (filter (\<lambda>r. length r < length s) (a s))) @ [s]"

definition m_star :: "matcher \<Rightarrow> matcher" where
  "m_star a s = m_star_upto (length s) a s"

definition m_plus :: "matcher \<Rightarrow> matcher" where
  "m_plus a = m_seq a (m_star a)"

fun re_search :: "matcher \<Rightarrow> pystr \<Rightarrow> bool" where
  "re_search a [] = (a [] \<noteq> [])"
| "re_search a (c # cs) = (a (c # cs) \<noteq> [] \<or> re_search a cs)"

text \<open>
  \<^verbatim>\<open>(\d{1,3}([.,]\d{3})+|\d+)\s*(vnd|d-with-stroke|usd|\$)\<close>, where the second currency
  marker is the one letter U+0111 (273); 46 is the dot, 44 the comma, 36 the dollar.
\<close>

definition money_re :: "ucd \<Rightarrow> matcher" where
  "money_re U =
     (let d = m_class (is_decimal U) in
      m_seq
        (m_alt
          (m_seq (m_alt (m_times 3 d) (m_alt (m_times 2 d) (m_times 1 d)))
                 (m_plus (m_seq (m_class (\<lambda>c. c = 46 \<or> c = 44)) (m_times 3 d))))
          (m_plus d))
        (m_seq (m_star (m_class py_isspace))
          (m_alt (m_lit (py ''vnd'')) (m_alt (m_lit [273])
            (m_alt (m_lit (py ''usd'')) (m_lit [36]))))))"

subsection \<open>\<open>classify_document\<close>\<close>

definition gov_keywords :: "pystr list" where
  "gov_keywords =
    [py ''c'' @ [7897] @ py ''ng h'' @ [242] @ py ''a x'' @ [227] @ py '' h'' @ [7897] @ py ''i ch'' @ [7911] @ py '' ngh'' @ [297] @ py ''a vi'' @ [7879] @ py ''t nam'',
     [273, 7897] @ py ''c l'' @ [7853] @ py ''p - t'' @ [7921] @ py '' do - h'' @ [7841] @ py ''nh ph'' @ [250] @ py ''c'',
     py ''c'' @ [244] @ py ''ng '' @ [273] @ py ''i'' @ [7879] @ py ''n'',
     py ''k'' @ [237] @ py ''nh g'' @ [7917] @ py ''i'',
     py ''s'' @ [7889] @ py '':'',
     py ''kh'' @ [7849] @ py ''n'',
     py ''h'' @ [7887] @ py ''a t'' @ [7889] @ py ''c'',
     py ''b'' @ [7897] @ py '' '',
     [7911] @ py ''y ban nh'' @ [226] @ py ''n d'' @ [226] @ py ''n'',
     py ''th'' @ [7911] @ py '' t'' @ [432, 7899] @ py ''ng'',
     py ''ch'' @ [237] @ py ''nh ph'' @ [7911]]"

definition invoice_keywords :: "pystr list" where
  "invoice_keywords =
    [py ''invoice'',
     py ''receipt'',
     py ''vat'',
     py ''tax'',
     py ''subtotal'',
     py ''total'',
     py ''amount'',
     py ''cashier'',
     py ''change'',
     py ''paid'',
     py ''payment'',
     py ''h'' @ [243] @ py ''a '' @ [273, 417] @ py ''n'',
     py ''ho'' @ [225] @ py '' '' @ [273, 417] @ py ''n'',
     py ''m'' @ [227] @ py '' s'' @ [7889] @ py '' thu'' @ [7871],
     py ''t'' @ [7893] @ py ''ng c'' @ [7897] @ py ''ng'',
     py ''th'' @ [224] @ py ''nh ti'' @ [7873] @ py ''n'',
     py ''ti'' @ [7873] @ py ''n m'' @ [7863] @ py ''t'',
     py ''s'' @ [7889] @ py '' h'' @ [243] @ py ''a '' @ [273, 417] @ py ''n'',
     py ''s'' @ [7889] @ py '' ho'' @ [225] @ py '' '' @ [273, 417] @ py ''n'',
     py ''ng'' @ [224] @ py ''y b'' @ [225] @ py ''n'',
     [273, 417] @ py ''n gi'' @ [225],
     py ''s'' @ [7889] @ py '' l'' @ [432, 7907] @ py ''ng'']"

text \<open>\<^verbatim>\<open>sum(1 for k in keywords if k in t)\<close>: one count per list entry that occurs in \<open>t\<close>.\<close>

definition hits :: "pystr list \<Rightarrow> pystr \<Rightarrow> nat" where
  "hits keywords t = length (filter (\<lambda>k. py_in k t) keywords)"

definition money_like :: "ucd \<Rightarrow> pystr \<Rightarrow> bool" where
  "money_like U t = re_search (money_re U) t"

definition classify_document :: "ucd \<Rightarrow> pystr option \<Rightarrow> pystr" where
  "classify_document U ocr_text =
     (let t = normalize_text U ocr_text;
          gov_hits = hits gov_keywords t
      in if gov_hits \<ge> 2 then py ''Government Telegram''
         else
           (let inv_hits = hits invoice_keywords t
            in if inv_hits \<ge> 2 \<or> (inv_hits \<ge> 1 \<and> money_like U t) then py ''Invoice''
               else py ''Normal''))"

subsection \<open>Properties of \<open>normalize_text\<close>\<close>

















lemma py_strip_decomp:
  "\<exists>a b. s = a @ py_strip s @ b"
proof -
  let ?u = "dropWhile py_isspace s"
  have "s = takeWhile py_isspace s @ ?u"
    by simp
  moreover have "rev ?u = takeWhile py_isspace (rev ?u) @ dropWhile py_isspace (rev ?u)"
    by simp
  then have "?u = py_strip s @ rev (takeWhile py_isspace (rev ?u))"
    unfolding py_strip_def by (metis rev_append rev_rev_ident)
  ultimately have "s = takeWhile py_isspace s @ py_strip s @ rev (takeWhile py_isspace (rev ?u))"
    by simp
  then show ?thesis by blast
qed









lemma m_times_numeral:
  "m_times (numeral n) a s = concat (map (m_times (pred_numeral n) a) (a s))"
  by (simp add: numeral_eq_Suc)

lemmas str_eval = py_def py_strip_def py_isspace_def py_lower_def lower_ucs4_def
  handle_capital_sigma_def ucd_excerpt_def normalize_text_def

lemmas re_eval = m_class_def m_lit_def m_seq_def m_alt_def m_star_def m_plus_def
  money_re_def money_like_def m_times_numeral Let_def py_def py_isspace_def ucd_excerpt_def



subsection \<open>Properties of \<open>classify_document\<close>\<close>

lemma two_members_length:
  assumes "a \<in> set xs" "b \<in> set xs" "a \<noteq> b"
  shows "2 \<le> length xs"
proof -
  have "card {a, b} \<le> card (set xs)"
    using assms by (intro card_mono) auto
  also have "\<dots> \<le> length xs"
    by (rule card_length)
  finally show ?thesis
    using assms(3) by simp
qed

text \<open>
  C3. When at least two distinct entries of the government keyword list occur in the
  normalized text, \<open>classify_document\<close> returns \<^verbatim>\<open>Government Telegram\<close>, whatever the
  invoice keywords and money-like patterns of the text: the invoice test is not reached.
\<close>

theorem classify_government_short_circuit:
  assumes "k1 \<in> set gov_keywords" and "k2 \<in> set gov_keywords" and "k1 \<noteq> k2"
    and "py_in k1 (normalize_text U x)" and "py_in k2 (normalize_text U x)"
  shows "classify_document U x = py ''Government Telegram''"
proof -
  have "2 \<le> hits gov_keywords (normalize_text U x)"
    unfolding hits_def using assms
    by (intro two_members_length [of k1 _ k2]) auto
  then show ?thesis
    by (simp add: classify_document_def Let_def)
qed

text \<open>
  An upper-case telegram heading with two government phrases (the third and the sixth
  entry of the list), followed by two invoice keywords and an amount.
\<close>

definition telegram_example :: pystr where
  "telegram_example =
     py ''C'' @ [212] @ py ''NG '' @ [272] @ py ''I'' @ [7878] @ py ''N KH'' @ [7848]
       @ py ''N: invoice total 5 usd''"

theorem classify_government_short_circuit_witness:
  "py ''c'' @ [244] @ py ''ng '' @ [273] @ py ''i'' @ [7879] @ py ''n'' \<in> set gov_keywords \<and>
   py ''kh'' @ [7849] @ py ''n'' \<in> set gov_keywords \<and>
   py ''c'' @ [244] @ py ''ng '' @ [273] @ py ''i'' @ [7879] @ py ''n'' \<noteq> py ''kh'' @ [7849] @ py ''n'' \<and>
   py_in (py ''c'' @ [244] @ py ''ng '' @ [273] @ py ''i'' @ [7879] @ py ''n'')
     (normalize_text ucd_excerpt (Some telegram_example)) \<and>
   py_in (py ''kh'' @ [7849] @ py ''n'') (normalize_text ucd_excerpt (Some telegram_example)) \<and>
   hits invoice_keywords (normalize_text ucd_excerpt (Some telegram_example)) = 2 \<and>
   money_like ucd_excerpt (normalize_text ucd_excerpt (Some telegram_example)) \<and>
   classify_document ucd_excerpt (Some telegram_example) = py ''Government Telegram''"
proof -
  have n: "normalize_text ucd_excerpt (Some telegram_example) =
      py ''c'' @ [244] @ py ''ng '' @ [273] @ py ''i'' @ [7879] @ py ''n kh'' @ [7849]
        @ py ''n: invoice total 5 usd''"
    by (simp add: telegram_example_def str_eval)
  have k1: "py ''c'' @ [244] @ py ''ng '' @ [273] @ py ''i'' @ [7879] @ py ''n'' \<in> set gov_keywords"
    by (simp add: gov_keywords_def)
  have k2: "py ''kh'' @ [7849] @ py ''n'' \<in> set gov_keywords"
    by (simp add: gov_keywords_def)
  have ne: "py ''c'' @ [244] @ py ''ng '' @ [273] @ py ''i'' @ [7879] @ py ''n''
      \<noteq> py ''kh'' @ [7849] @ py ''n''"
    by (simp add: py_def)
  have i1: "py_in (py ''c'' @ [244] @ py ''ng '' @ [273] @ py ''i'' @ [7879] @ py ''n'')
      (normalize_text ucd_excerpt (Some telegram_example))"
    unfolding n by (simp add: py_def)
  have i2: "py_in (py ''kh'' @ [7849] @ py ''n'')
      (normalize_text ucd_excerpt (Some telegram_example))"
    unfolding n by (simp add: py_def)
  have inv: "hits invoice_keywords (normalize_text ucd_excerpt (Some telegram_example)) = 2"
    unfolding n by (simp add: hits_def invoice_keywords_def py_def)
  have money: "money_like ucd_excerpt (normalize_text ucd_excerpt (Some telegram_example))"
    unfolding n by (simp add: re_eval)
  show ?thesis
    using k1 k2 ne i1 i2 inv money classify_government_short_circuit [OF k1 k2 ne i1 i2]
    by (intro conjI)
qed

text \<open>
  A money-like substring is a string the money pattern matches as a whole. A matcher
  \<open>extends\<close> when a match of a text is a match of every longer text, with the rest
  carried along: the combinators of the pattern do, so a money-like substring anywhere
  in a text is found by \<^verbatim>\<open>re.search\<close>.
\<close>

definition money_span :: "ucd \<Rightarrow> pystr \<Rightarrow> bool" where
  "money_span U m \<longleftrightarrow> [] \<in> set (money_re U m)"

definition extends :: "matcher \<Rightarrow> bool" where
  "extends a \<longleftrightarrow> (\<forall>s r y. r \<in> set (a s) \<longrightarrow> r @ y \<in> set (a (s @ y)))"

lemma extendsD: "extends a \<Longrightarrow> r \<in> set (a s) \<Longrightarrow> r @ y \<in> set (a (s @ y))"
  by (simp add: extends_def)

lemma extends_m_class: "extends (m_class p)"
  by (auto simp: extends_def m_class_def split: list.splits if_splits)

lemma extends_m_lit: "extends (m_lit l)"
  by (auto simp: extends_def m_lit_def prefix_def)

lemma extends_m_seq: "extends a \<Longrightarrow> extends b \<Longrightarrow> extends (m_seq a b)"
  unfolding extends_def m_seq_def by fastforce

lemma extends_m_alt: "extends a \<Longrightarrow> extends b \<Longrightarrow> extends (m_alt a b)"
  unfolding extends_def m_alt_def by auto

lemma m_times_extends:
  "extends a \<Longrightarrow> r \<in> set (m_times n a s) \<Longrightarrow> r @ y \<in> set (m_times n a (s @ y))"
proof (induction n arbitrary: s)
  case 0
  then show ?case by simp
next
  case (Suc n)
  from Suc.prems(2) obtain r1 where r1: "r1 \<in> set (a s)" "r \<in> set (m_times n a r1)"
    by auto
  from extendsD [OF Suc.prems(1) r1(1)] Suc.IH [OF Suc.prems(1) r1(2)]
  show ?case by auto
qed

lemma extends_m_times: "extends a \<Longrightarrow> extends (m_times n a)"
  unfolding extends_def [of "m_times n a"] by (blast intro: m_times_extends)

lemma m_star_upto_self: "s \<in> set (m_star_upto n a s)"
  by (cases n) simp_all

lemma m_star_upto_extends:
  "extends a \<Longrightarrow> r \<in> set (m_star_upto n a s) \<Longrightarrow> n \<le> k \<Longrightarrow>
   r @ y \<in> set (m_star_upto k a (s @ y))"
proof (induction n arbitrary: s k)
  case 0
  then show ?case by (simp add: m_star_upto_self)
next
  case (Suc n)
  from Suc.prems(3) obtain k' where k: "k = Suc k'" "n \<le> k'"
    by (cases k) auto
  from Suc.prems(2) consider "r = s"
    | r1 where "r1 \<in> set (a s)" "length r1 < length s" "r \<in> set (m_star_upto n a r1)"
    by auto
  then show ?case
  proof cases
    case 1
    then show ?thesis by (simp add: m_star_upto_self)
  next
    case 2
    from extendsD [OF Suc.prems(1) 2(1)] have "r1 @ y \<in> set (a (s @ y))" .
    moreover have "length (r1 @ y) < length (s @ y)"
      using 2(2) by simp
    moreover have "r @ y \<in> set (m_star_upto k' a (r1 @ y))"
      by (rule Suc.IH [OF Suc.prems(1) 2(3) k(2)])
    ultimately show ?thesis
      unfolding k(1) by auto
  qed
qed

lemma extends_m_star: "extends a \<Longrightarrow> extends (m_star a)"
  unfolding extends_def [of "m_star a"] m_star_def
  by (auto intro: m_star_upto_extends)

lemma extends_m_plus: "extends a \<Longrightarrow> extends (m_plus a)"
  unfolding m_plus_def by (intro extends_m_seq extends_m_star)

lemma extends_money_re: "extends (money_re U)"
  unfolding money_re_def Let_def
  by (intro extends_m_seq extends_m_alt extends_m_plus extends_m_star extends_m_times
      extends_m_class extends_m_lit)

lemma re_search_append: "a s \<noteq> [] \<Longrightarrow> re_search a (pre @ s)"
proof (induction pre)
  case Nil
  then show ?case by (cases s) simp_all
next
  case (Cons c pre)
  then show ?case by simp
qed

lemma money_span_found:
  assumes "money_span U m"
  shows "money_like U (a @ m @ b)"
proof -
  from assms have "[] \<in> set (money_re U m)"
    by (simp add: money_span_def)
  from extendsD [OF extends_money_re this, of b] have "money_re U (m @ b) \<noteq> []"
    by auto
  then show ?thesis
    unfolding money_like_def by (rule re_search_append)
qed

text \<open>
  The plain shape of a money-like substring: a run of digits, whitespace or none, and a
  currency marker.
\<close>

lemma m_star_upto_class_run:
  "list_all p ds \<Longrightarrow> length ds \<le> n \<Longrightarrow> rest \<in> set (m_star_upto n (m_class p) (ds @ rest))"
proof (induction ds arbitrary: n)
  case Nil
  then show ?case by (simp add: m_star_upto_self)
next
  case (Cons c ds)
  from Cons.prems(2) obtain k where k: "n = Suc k" "length ds \<le> k"
    by (cases n) auto
  from Cons.prems(1) have "p c" "list_all p ds"
    by simp_all
  with Cons.IH [OF _ k(2)] show ?case
    unfolding k(1) by (simp add: m_class_def)
qed

lemma m_star_class_run:
  "list_all p ds \<Longrightarrow> rest \<in> set (m_star (m_class p) (ds @ rest))"
  unfolding m_star_def by (rule m_star_upto_class_run) simp_all

lemma m_plus_class_run:
  "ds \<noteq> [] \<Longrightarrow> list_all p ds \<Longrightarrow> rest \<in> set (m_plus (m_class p) (ds @ rest))"
proof -
  assume a: "ds \<noteq> []" "list_all p ds"
  then obtain c cs where ds: "ds = c # cs"
    by (cases ds) auto
  with a(2) have "p c" "list_all p cs"
    by simp_all
  then show ?thesis
    using m_star_class_run [of p cs rest]
    by (simp add: ds m_plus_def m_seq_def m_class_def)
qed

lemma m_lit_self: "rest \<in> set (m_lit l (l @ rest))"
  by (simp add: m_lit_def)

lemma money_span_plain:
  assumes "ds \<noteq> []" and "list_all (is_decimal U) ds" and "list_all py_isspace ws"
    and "cur \<in> {py ''vnd'', [273], py ''usd'', [36]}"
  shows "money_span U (ds @ ws @ cur)"
proof -
  let ?d = "m_class (is_decimal U)"
  let ?cur = "m_alt (m_lit (py ''vnd'')) (m_alt (m_lit [273]) (m_alt (m_lit (py ''usd'')) (m_lit [36])))"
  have 1: "ws @ cur \<in> set (m_plus ?d (ds @ ws @ cur))"
    by (rule m_plus_class_run [OF assms(1,2)])
  have 2: "cur \<in> set (m_star (m_class py_isspace) (ws @ cur))"
    by (rule m_star_class_run [OF assms(3)])
  have 3: "[] \<in> set (?cur cur)"
    using assms(4) m_lit_self [of "[]"] by (auto simp: m_alt_def)
  from 2 3 have 4: "[] \<in> set (m_seq (m_star (m_class py_isspace)) ?cur (ws @ cur))"
    unfolding m_seq_def by auto
  from 1 4 show ?thesis
    unfolding money_span_def money_re_def Let_def m_seq_def [of "m_alt _ _"] m_alt_def [of "m_seq _ _" "m_plus _"]
    by auto
qed

lemma py_neq_Invoice_Normal:
  "py ''Invoice'' \<noteq> py ''Normal''" "py ''Government Telegram'' \<noteq> py ''Normal''"
  by (simp_all add: py_def)

lemma classify_document_Normal_iff:
  "classify_document U y = py ''Normal'' \<longleftrightarrow>
     hits gov_keywords (normalize_text U y) < 2 \<and>
     hits invoice_keywords (normalize_text U y) < 2 \<and>
     (hits invoice_keywords (normalize_text U y) = 0 \<or> \<not> money_like U (normalize_text U y))"
  using py_neq_Invoice_Normal
  by (auto simp: classify_document_def Let_def)

text \<open>
  C4, as stated, fails: taking the money-like substring out joins its two sides, and a
  keyword can come to stand across the joint. The text below has one invoice keyword
  (\<^verbatim>\<open>total\<close>), one government phrase and the money-like substring \<^verbatim>\<open>5$\<close>, and is an
  \<^verbatim>\<open>Invoice\<close>. Without \<^verbatim>\<open>5$\<close> it still has the one invoice keyword and no money-like
  substring, but its last word now is the government phrase U+1EA9-spelled \<^verbatim>\<open>khan\<close>:
  with two government phrases it is a \<^verbatim>\<open>Government Telegram\<close>, not \<^verbatim>\<open>Normal\<close>.
\<close>

definition joint_left :: pystr where
  "joint_left = py ''total c'' @ [244] @ py ''ng '' @ [273] @ py ''i'' @ [7879] @ py ''n kh'' @ [7849]"

theorem removal_joins_government_phrase:
  "normalize_text ucd_excerpt (Some (joint_left @ py ''5$'' @ py ''n''))
     = joint_left @ py ''5$'' @ py ''n'' \<and>
   money_span ucd_excerpt (py ''5$'') \<and>
   hits invoice_keywords (joint_left @ py ''5$'' @ py ''n'') = 1 \<and>
   hits gov_keywords (joint_left @ py ''5$'' @ py ''n'') = 1 \<and>
   classify_document ucd_excerpt (Some (joint_left @ py ''5$'' @ py ''n'')) = py ''Invoice'' \<and>
   normalize_text ucd_excerpt (Some (joint_left @ py ''n'')) = joint_left @ py ''n'' \<and>
   hits invoice_keywords (joint_left @ py ''n'') = 1 \<and>
   \<not> money_like ucd_excerpt (joint_left @ py ''n'') \<and>
   hits gov_keywords (joint_left @ py ''n'') = 2 \<and>
   classify_document ucd_excerpt (Some (joint_left @ py ''n'')) = py ''Government Telegram'' \<and>
   classify_document ucd_excerpt (Some (joint_left @ py ''n'')) \<noteq> py ''Normal''"
proof -
  have n1: "normalize_text ucd_excerpt (Some (joint_left @ py ''5$'' @ py ''n''))
      = joint_left @ py ''5$'' @ py ''n''"
    by (simp add: str_eval joint_left_def)
  have sp: "money_span ucd_excerpt (py ''5$'')"
    by (simp add: money_span_def re_eval)
  have i1: "hits invoice_keywords (joint_left @ py ''5$'' @ py ''n'') = 1"
    by (simp add: hits_def invoice_keywords_def py_def joint_left_def)
  have g1: "hits gov_keywords (joint_left @ py ''5$'' @ py ''n'') = 1"
    by (simp add: hits_def gov_keywords_def py_def joint_left_def)
  have m1: "money_like ucd_excerpt (joint_left @ py ''5$'' @ py ''n'')"
    by (rule money_span_found [OF sp])
  have c1: "classify_document ucd_excerpt (Some (joint_left @ py ''5$'' @ py ''n'')) = py ''Invoice''"
    by (simp add: classify_document_def Let_def n1 i1 g1 m1)
  have n2: "normalize_text ucd_excerpt (Some (joint_left @ py ''n'')) = joint_left @ py ''n''"
    by (simp add: str_eval joint_left_def)
  have i2: "hits invoice_keywords (joint_left @ py ''n'') = 1"
    by (simp add: hits_def invoice_keywords_def py_def joint_left_def)
  have m2: "\<not> money_like ucd_excerpt (joint_left @ py ''n'')"
    by (simp add: re_eval joint_left_def)
  have g2: "hits gov_keywords (joint_left @ py ''n'') = 2"
    by (simp add: hits_def gov_keywords_def py_def joint_left_def)
  have c2: "classify_document ucd_excerpt (Some (joint_left @ py ''n'')) = py ''Government Telegram''"
    by (simp add: classify_document_def Let_def n2 g2)
  have c3: "classify_document ucd_excerpt (Some (joint_left @ py ''n'')) \<noteq> py ''Normal''"
    unfolding c2 by (simp add: py_def)
  show ?thesis
    using n1 sp i1 g1 c1 n2 i2 m2 g2 c2 c3 by (intro conjI)
qed

text \<open>
  C4, amended. Let the normalized form of a text hold exactly one entry of the invoice
  keyword list, fewer than two government phrases and a money-like substring \<open>m\<close>, a
  whole match of the money pattern, between \<open>a\<close> and \<open>b\<close>. Then \<open>classify_document\<close>
  returns \<^verbatim>\<open>Invoice\<close>. The text with \<open>m\<close> removed, \<open>a @ b\<close>, is classified by what it holds
  after the removal: it returns \<^verbatim>\<open>Normal\<close> exactly when its normalized form has fewer
  than two government phrases, fewer than two invoice keywords and, if it has an invoice
  keyword, no money-like substring.
\<close>

theorem classify_money_removed:
  assumes "hits invoice_keywords (normalize_text U (Some x)) = 1"
    and "hits gov_keywords (normalize_text U (Some x)) < 2"
    and "normalize_text U (Some x) = a @ m @ b"
    and "money_span U m"
  shows "classify_document U (Some x) = py ''Invoice'' \<and>
         (classify_document U (Some (a @ b)) = py ''Normal'' \<longleftrightarrow>
            hits gov_keywords (normalize_text U (Some (a @ b))) < 2 \<and>
            hits invoice_keywords (normalize_text U (Some (a @ b))) < 2 \<and>
            (hits invoice_keywords (normalize_text U (Some (a @ b))) = 0 \<or>
             \<not> money_like U (normalize_text U (Some (a @ b)))))"
proof -
  have "money_like U (normalize_text U (Some x))"
    unfolding assms(3) by (rule money_span_found [OF assms(4)])
  with assms(1,2) have "classify_document U (Some x) = py ''Invoice''"
    by (simp add: classify_document_def Let_def)
  then show ?thesis
    using classify_document_Normal_iff [of U "Some (a @ b)"] by simp
qed

text \<open>The spec's example: \<^verbatim>\<open>"total 1.250.000 vnd"\<close>, and the same text without the amount.\<close>

theorem classify_money_removed_witness:
  "hits invoice_keywords (normalize_text ucd_excerpt (Some (py ''total 1.250.000 vnd''))) = 1 \<and>
   hits gov_keywords (normalize_text ucd_excerpt (Some (py ''total 1.250.000 vnd''))) < 2 \<and>
   normalize_text ucd_excerpt (Some (py ''total 1.250.000 vnd''))
     = py ''total '' @ py ''1.250.000 vnd'' @ [] \<and>
   money_span ucd_excerpt (py ''1.250.000 vnd'') \<and>
   classify_document ucd_excerpt (Some (py ''total 1.250.000 vnd'')) = py ''Invoice'' \<and>
   hits gov_keywords (normalize_text ucd_excerpt (Some (py ''total '' @ []))) < 2 \<and>
   hits invoice_keywords (normalize_text ucd_excerpt (Some (py ''total '' @ []))) < 2 \<and>
   \<not> money_like ucd_excerpt (normalize_text ucd_excerpt (Some (py ''total '' @ []))) \<and>
   classify_document ucd_excerpt (Some (py ''total '' @ [])) = py ''Normal''"
proof -
  have n1: "normalize_text ucd_excerpt (Some (py ''total 1.250.000 vnd''))
      = py ''total '' @ py ''1.250.000 vnd'' @ []"
    by (simp add: str_eval)
  have n2: "normalize_text ucd_excerpt (Some (py ''total '' @ [])) = py ''total''"
    by (simp add: str_eval)
  have a1: "hits invoice_keywords (normalize_text ucd_excerpt (Some (py ''total 1.250.000 vnd''))) = 1"
    unfolding n1 by (simp add: hits_def invoice_keywords_def py_def)
  have a2: "hits gov_keywords (normalize_text ucd_excerpt (Some (py ''total 1.250.000 vnd''))) < 2"
    unfolding n1 by (simp add: hits_def gov_keywords_def py_def)
  have sp: "money_span ucd_excerpt (py ''1.250.000 vnd'')"
    by (simp add: money_span_def re_eval)
  have b1: "hits invoice_keywords (normalize_text ucd_excerpt (Some (py ''total '' @ []))) < 2"
    unfolding n2 by (simp add: hits_def invoice_keywords_def py_def)
  have b2: "hits gov_keywords (normalize_text ucd_excerpt (Some (py ''total '' @ []))) < 2"
    unfolding n2 by (simp add: hits_def gov_keywords_def py_def)
  have b3: "\<not> money_like ucd_excerpt (normalize_text ucd_excerpt (Some (py ''total '' @ [])))"
    unfolding n2 by (simp add: re_eval)
  note t = classify_money_removed [OF a1 a2 n1 sp]
  from t have c1: "classify_document ucd_excerpt (Some (py ''total 1.250.000 vnd'')) = py ''Invoice''"
    by (elim conjE)
  from t b1 b2 b3 have c2: "classify_document ucd_excerpt (Some (py ''total '' @ [])) = py ''Normal''"
    by blast
  show ?thesis
    using a1 a2 n1 sp c1 b2 b1 b3 c2 by (intro conjI)
qed

section \<open>core/db.py\<close>

text \<open>
  The SQLite store. A column value is \<open>None\<close> for SQL's NULL or \<open>Some\<close> text. A table is
  the list of its rows in rowid order. \<open>documents_fts\<close> is \<open>None\<close> when the FTS5 virtual
  table could not be created (\<^verbatim>\<open>init_db\<close> swallows that error): every statement on it then
  raises \<^verbatim>\<open>sqlite3.OperationalError\<close>. \<open>images_seq\<close> is the largest image id handed out
  so far (\<^verbatim>\<open>AUTOINCREMENT\<close>).
\<close>

type_synonym sqlval = "pystr option"

record document_row =
  d_id :: sqlval
  d_title :: sqlval
  d_created_at :: sqlval
  d_doc_type :: sqlval
  d_ocr_text :: sqlval
  d_word_path :: sqlval
  d_excel_path :: sqlval

record image_row =
  i_id :: nat
  i_document_id :: pystr
  i_filename :: pystr
  i_stored_path :: pystr
  i_ocr_text :: sqlval

record fts_row =
  f_document_id :: sqlval
  f_title :: sqlval
  f_doc_type :: sqlval
  f_ocr_text :: sqlval

record store =
  documents :: "document_row list"
  images :: "image_row list"
  images_seq :: nat
  documents_fts :: "fts_row list option"

text \<open>
  A payload is a Python dict from field names to values; \<^verbatim>\<open>doc["id"]\<close> raises \<^verbatim>\<open>KeyError\<close>
  when the key is missing, \<^verbatim>\<open>doc.get(k)\<close> gives \<^verbatim>\<open>None\<close> and \<^verbatim>\<open>doc.get(k, "")\<close> the empty
  string.
\<close>

type_synonym pydict = "string \<rightharpoonup> sqlval"

datatype error = KeyError string | OperationalError

definition dict_get :: "pydict \<Rightarrow> string \<Rightarrow> sqlval" where
  "dict_get doc k = (case doc k of None \<Rightarrow> None | Some v \<Rightarrow> v)"

definition dict_get_default :: "pydict \<Rightarrow> string \<Rightarrow> sqlval \<Rightarrow> sqlval" where
  "dict_get_default doc k dflt = (case doc k of None \<Rightarrow> dflt | Some v \<Rightarrow> v)"

text \<open>SQL's \<^verbatim>\<open>=\<close> in a \<^verbatim>\<open>WHERE\<close> or \<^verbatim>\<open>ON\<close> clause: a comparison with NULL never holds.\<close>

definition sql_eq :: "sqlval \<Rightarrow> sqlval \<Rightarrow> bool" where
  "sql_eq a b \<longleftrightarrow> a \<noteq> None \<and> a = b"

text \<open>
  \<^verbatim>\<open>
  INSERT INTO documents (id, title, created_at, doc_type, ocr_text, word_path, excel_path)
  VALUES (?, ?, ?, ?, ?, ?, ?)
  ON CONFLICT(id) DO UPDATE SET title=excluded.title, created_at=excluded.created_at,
    doc_type=excluded.doc_type, ocr_text=excluded.ocr_text,
    word_path=excluded.word_path, excel_path=excluded.excel_path
  \<close>
  then, inside \<^verbatim>\<open>try ... except sqlite3.OperationalError: pass\<close>,
  \<^verbatim>\<open>DELETE FROM documents_fts WHERE document_id = ?\<close> and an \<^verbatim>\<open>INSERT\<close> of the new entry.
\<close>

definition payload_row :: "sqlval \<Rightarrow> pydict \<Rightarrow> document_row" where
  "payload_row i doc =
     \<lparr>d_id = i, d_title = dict_get doc ''title'', d_created_at = dict_get doc ''created_at'',
      d_doc_type = dict_get doc ''doc_type'', d_ocr_text = dict_get doc ''ocr_text'',
      d_word_path = dict_get doc ''word_path'', d_excel_path = dict_get doc ''excel_path''\<rparr>"

definition payload_fts :: "sqlval \<Rightarrow> pydict \<Rightarrow> fts_row" where
  "payload_fts i doc =
     \<lparr>f_document_id = i, f_title = dict_get_default doc ''title'' (Some []),
      f_doc_type = dict_get_default doc ''doc_type'' (Some []),
      f_ocr_text = dict_get_default doc ''ocr_text'' (Some [])\<rparr>"

definition upsert_document :: "store \<Rightarrow> pydict \<Rightarrow> error + store" where
  "upsert_document s doc =
     (case doc ''id'' of
        None \<Rightarrow> Inl (KeyError ''id'')
      | Some i \<Rightarrow>
          (let row = payload_row i doc;
               docs = (if list_ex (\<lambda>r. sql_eq (d_id r) i) (documents s)
                       then map (\<lambda>r. if sql_eq (d_id r) i then row else r) (documents s)
                       else documents s @ [row]);
               fts = (case documents_fts s of
                        None \<Rightarrow> None
                      | Some f \<Rightarrow>
                          Some (filter (\<lambda>e. \<not> sql_eq (f_document_id e) i) f
                                  @ [payload_fts i doc]))
           in Inr (s\<lparr>documents := docs, documents_fts := fts\<rparr>)))"

text \<open>\<^verbatim>\<open>INSERT INTO images (document_id, filename, stored_path, ocr_text) VALUES (?, ?, ?, ?)\<close>\<close>

definition insert_image :: "store \<Rightarrow> pystr \<Rightarrow> pystr \<Rightarrow> pystr \<Rightarrow> sqlval \<Rightarrow> store" where
  "insert_image s document_id filename stored_path ocr_text =
     s\<lparr>images := images s @
          [\<lparr>i_id = Suc (images_seq s), i_document_id = document_id, i_filename = filename,
            i_stored_path = stored_path, i_ocr_text = ocr_text\<rparr>],
       images_seq := Suc (images_seq s)\<rparr>"

text \<open>\<^verbatim>\<open>UPDATE images SET ocr_text = ? WHERE document_id = ? AND stored_path = ?\<close>\<close>

definition update_image_ocr :: "store \<Rightarrow> pystr \<Rightarrow> pystr \<Rightarrow> pystr \<Rightarrow> store" where
  "update_image_ocr s document_id stored_path ocr_text =
     s\<lparr>images :=
          map (\<lambda>r. if i_document_id r = document_id \<and> i_stored_path r = stored_path
                   then r\<lparr>i_ocr_text := Some ocr_text\<rparr> else r)
              (images s)\<rparr>"

text \<open>\<^verbatim>\<open>SELECT * FROM documents WHERE id = ?\<close>, then \<^verbatim>\<open>fetchone()\<close>.\<close>

definition get_document :: "store \<Rightarrow> pystr \<Rightarrow> document_row option" where
  "get_document s doc_id = find (\<lambda>r. d_id r = Some doc_id) (documents s)"

subsection \<open>\<open>search_documents\<close>\<close>

text \<open>
  \<^verbatim>\<open>if doc_type and doc_type != "All"\<close> decides whether the clause \<^verbatim>\<open>doc_type = ?\<close> is part
  of the query. \<^verbatim>\<open>ORDER BY created_at DESC\<close> puts NULL last and compares text code point
  by code point; rows with equal keys are kept in the order the scan produced them.
  A negative \<^verbatim>\<open>LIMIT\<close> means no limit.
\<close>

definition doc_type_clause :: "pystr option \<Rightarrow> document_row \<Rightarrow> bool" where
  "doc_type_clause doc_type r =
     (case doc_type of
        None \<Rightarrow> True
      | Some t \<Rightarrow> if t \<noteq> [] \<and> t \<noteq> py ''All'' then sql_eq (d_doc_type r) (Some t) else True)"

definition order_by_created_at_desc :: "document_row list \<Rightarrow> document_row list" where
  "order_by_created_at_desc rows = rev (sort_key d_created_at (rev rows))"

definition sql_limit :: "int \<Rightarrow> 'a list \<Rightarrow> 'a list" where
  "sql_limit n rows = (if n < 0 then rows else take (nat n) rows)"

text \<open>
  SQLite's \<^verbatim>\<open>LIKE\<close>: \<^verbatim>\<open>%\<close> (37) matches any run of characters, \<^verbatim>\<open>_\<close> (95) any one
  character, any other character itself, the ASCII letters without regard to case.
  NULL is like nothing. The operator reads the pattern and the text as C strings, up to
  their first NUL character (code point 0): \<open>c_str\<close>. It refuses a pattern of more than
  50000 bytes of UTF-8 (\<^verbatim>\<open>SQLITE_MAX_LIKE_PATTERN_LENGTH\<close>, counted on the whole pattern)
  with the error \<^verbatim>\<open>LIKE or GLOB pattern too complex\<close>, an \<^verbatim>\<open>sqlite3.OperationalError\<close>.
\<close>

definition sqlite_upper :: "nat \<Rightarrow> nat" where
  "sqlite_upper c = (if 97 \<le> c \<and> c \<le> 122 then c - 32 else c)"

fun like_match :: "pystr \<Rightarrow> pystr \<Rightarrow> bool" where
  "like_match [] t = (t = [])"
| "like_match (p # ps) [] = (p = 37 \<and> like_match ps [])"
| "like_match (p # ps) (c # cs) =
     (if p = 37 then like_match ps (c # cs) \<or> like_match (p # ps) cs
      else (p = 95 \<or> sqlite_upper p = sqlite_upper c) \<and> like_match ps cs)"

definition c_str :: "pystr \<Rightarrow> pystr" where
  "c_str t = takeWhile (\<lambda>c. c \<noteq> 0) t"

definition utf8_size :: "nat \<Rightarrow> nat" where
  "utf8_size c = (if c < 128 then 1 else if c < 2048 then 2 else if c < 65536 then 3 else 4)"

definition utf8_len :: "pystr \<Rightarrow> nat" where
  "utf8_len t = sum_list (map utf8_size t)"

definition like_too_complex :: "pystr \<Rightarrow> bool" where
  "like_too_complex pattern \<longleftrightarrow> utf8_len pattern > 50000"

definition sql_like :: "sqlval \<Rightarrow> pystr \<Rightarrow> bool" where
  "sql_like v pattern =
     (case v of None \<Rightarrow> False | Some t \<Rightarrow> like_match (c_str pattern) (c_str t))"

text \<open>
  The index path. What \<^verbatim>\<open>documents_fts MATCH ?\<close> selects is decided by SQLite's FTS5
  engine: \<open>fts5 q\<close> is \<open>None\<close> when the engine rejects the query string \<open>q\<close>
  (\<^verbatim>\<open>sqlite3.OperationalError\<close>, a syntax error of the query language) and otherwise the
  set of index entries the query matches. The result is \<open>None\<close> when the path raises.
\<close>

type_synonym fts5_engine = "pystr \<Rightarrow> (fts_row \<Rightarrow> bool) option"

definition fts_path ::
  "store \<Rightarrow> fts5_engine \<Rightarrow> pystr \<Rightarrow> pystr option \<Rightarrow> int \<Rightarrow> document_row list option" where
  "fts_path s fts5 q doc_type limit =
     (case documents_fts s of
        None \<Rightarrow> None
      | Some f \<Rightarrow>
          (case fts5 q of
             None \<Rightarrow> None
           | Some matches \<Rightarrow>
               Some (sql_limit limit (order_by_created_at_desc
                 (concat (map (\<lambda>e. filter (\<lambda>d. sql_eq (d_id d) (f_document_id e)
                                              \<and> doc_type_clause doc_type d) (documents s))
                              (filter matches f)))))))"

text \<open>
  The fallback: \<^verbatim>\<open>like = f"%{q}%"\<close>, a scan of \<^verbatim>\<open>documents\<close>; \<open>like_rows\<close> are the rows
  the \<^verbatim>\<open>WHERE\<close> clause selects. The statement raises as soon as \<^verbatim>\<open>LIKE\<close> is evaluated
  with a pattern that is too long, and nothing catches that error: this happens when
  some row passes the \<^verbatim>\<open>doc_type\<close> clause, which is tested first, unless the limit is
  0 (with \<^verbatim>\<open>LIMIT 0\<close> no row is read).
\<close>

definition like_rows :: "store \<Rightarrow> pystr \<Rightarrow> pystr option \<Rightarrow> document_row list" where
  "like_rows s q doc_type =
     (let like = [37] @ q @ [37]
      in filter (\<lambda>d. doc_type_clause doc_type d \<and>
                     (sql_like (d_id d) like \<or> sql_like (d_title d) like
                      \<or> sql_like (d_ocr_text d) like))
                (documents s))"

definition like_path ::
  "store \<Rightarrow> pystr \<Rightarrow> pystr option \<Rightarrow> int \<Rightarrow> error + document_row list" where
  "like_path s q doc_type limit =
     (if limit \<noteq> 0 \<and> like_too_complex ([37] @ q @ [37])
         \<and> list_ex (doc_type_clause doc_type) (documents s)
      then Inl OperationalError
      else Inr (sql_limit limit (order_by_created_at_desc (like_rows s q doc_type))))"

definition search_documents ::
  "store \<Rightarrow> fts5_engine \<Rightarrow> pystr \<Rightarrow> pystr option \<Rightarrow> int \<Rightarrow> error + document_row list" where
  "search_documents s fts5 query doc_type limit =
     (let q = py_strip query
      in case fts_path s fts5 q doc_type limit of
           Some rows \<Rightarrow> Inr rows
         | None \<Rightarrow> like_path s q doc_type limit)"

subsection \<open>Properties of the store operations\<close>

text \<open>
  C9. When no image row has the key \<open>(document_id, stored_path)\<close>, \<open>update_image_ocr\<close>
  changes nothing: the store it returns is the store it was given, so the images table
  has the same rows with the same fields and the documents table is untouched. The
  operation has no failing branch.
\<close>

theorem update_image_ocr_no_match:
  assumes "\<forall>r\<in>set (images s). \<not> (i_document_id r = document_id \<and> i_stored_path r = stored_path)"
  shows "update_image_ocr s document_id stored_path ocr_text = s"
proof -
  have "map (\<lambda>r. if i_document_id r = document_id \<and> i_stored_path r = stored_path
                  then r\<lparr>i_ocr_text := Some ocr_text\<rparr> else r) (images s) = images s"
    using assms by (intro map_idI) auto
  then show ?thesis
    by (simp add: update_image_ocr_def)
qed

definition store_example :: store where
  "store_example =
     \<lparr>documents =
        [\<lparr>d_id = Some (py ''d1''), d_title = Some (py ''Document d1''),
          d_created_at = Some (py ''2024-01-01T00:00:00''), d_doc_type = Some (py ''Invoice''),
          d_ocr_text = Some (py ''h'' @ [243] @ py ''a '' @ [273, 417] @ py ''n 500000 vnd''),
          d_word_path = None, d_excel_path = None\<rparr>],
      images =
        [\<lparr>i_id = 1, i_document_id = py ''d1'', i_filename = py ''a.png'',
          i_stored_path = py ''uploads/d1/a.png'', i_ocr_text = None\<rparr>],
      images_seq = 1,
      documents_fts =
        Some [\<lparr>f_document_id = Some (py ''d1''), f_title = Some (py ''Document d1''),
               f_doc_type = Some (py ''Invoice''),
               f_ocr_text = Some (py ''h'' @ [243] @ py ''a '' @ [273, 417] @ py ''n 500000 vnd'')\<rparr>]\<rparr>"

theorem update_image_ocr_no_match_witness:
  "\<not> list_ex (\<lambda>r. i_document_id r = py ''d1'' \<and> i_stored_path r = py ''uploads/d1/b.png'')
       (images store_example) \<and>
   update_image_ocr store_example (py ''d1'') (py ''uploads/d1/b.png'') (py ''text'')
     = store_example"
proof -
  have e: "\<not> list_ex (\<lambda>r. i_document_id r = py ''d1'' \<and> i_stored_path r = py ''uploads/d1/b.png'')
      (images store_example)"
    by (simp add: store_example_def py_def)
  then have h: "\<forall>r\<in>set (images store_example).
      \<not> (i_document_id r = py ''d1'' \<and> i_stored_path r = py ''uploads/d1/b.png'')"
    by (simp add: list_ex_iff)
  show ?thesis
    using e update_image_ocr_no_match [OF h] by (intro conjI)
qed

lemma find_map_replace:
  assumes "list_ex P rows" and "P row"
  shows "find P (map (\<lambda>r. if P r then row else r) rows) = Some row"
  using assms by (induction rows) auto

lemma find_append_new:
  assumes "\<not> list_ex P rows" and "P row"
  shows "find P (rows @ [row]) = Some row"
  using assms by (induction rows) auto

lemma find_map_other:
  assumes "\<And>r. P r \<Longrightarrow> \<not> Q r" and "\<not> Q row"
  shows "find Q (map (\<lambda>r. if P r then row else r) rows) = find Q rows"
  using assms by (induction rows) auto

lemma find_append_other:
  assumes "\<not> Q row"
  shows "find Q (rows @ [row]) = find Q rows"
  using assms by (induction rows) auto

lemma upsert_document_Inr:
  assumes "doc ''id'' = Some i"
  shows "upsert_document s doc =
     Inr (s\<lparr>documents :=
              (if list_ex (\<lambda>r. sql_eq (d_id r) i) (documents s)
               then map (\<lambda>r. if sql_eq (d_id r) i then payload_row i doc else r) (documents s)
               else documents s @ [payload_row i doc]),
            documents_fts :=
              (case documents_fts s of
                 None \<Rightarrow> None
               | Some f \<Rightarrow> Some (filter (\<lambda>e. \<not> sql_eq (f_document_id e) i) f
                                  @ [payload_fts i doc]))\<rparr>)"
  using assms by (simp add: upsert_document_def Let_def)

lemma upsert_document_fields:
  assumes "doc ''id'' = Some i" and "upsert_document s doc = Inr s'"
  shows "documents s' =
           (if list_ex (\<lambda>r. sql_eq (d_id r) i) (documents s)
            then map (\<lambda>r. if sql_eq (d_id r) i then payload_row i doc else r) (documents s)
            else documents s @ [payload_row i doc])"
    and "documents_fts s' =
           (case documents_fts s of
              None \<Rightarrow> None
            | Some f \<Rightarrow> Some (filter (\<lambda>e. \<not> sql_eq (f_document_id e) i) f
                               @ [payload_fts i doc]))"
    and "images s' = images s" and "images_seq s' = images_seq s"
proof -
  have "s' = s\<lparr>documents :=
              (if list_ex (\<lambda>r. sql_eq (d_id r) i) (documents s)
               then map (\<lambda>r. if sql_eq (d_id r) i then payload_row i doc else r) (documents s)
               else documents s @ [payload_row i doc]),
            documents_fts :=
              (case documents_fts s of
                 None \<Rightarrow> None
               | Some f \<Rightarrow> Some (filter (\<lambda>e. \<not> sql_eq (f_document_id e) i) f
                                  @ [payload_fts i doc]))\<rparr>"
    using assms(2) unfolding upsert_document_Inr [where doc = doc and i = i and s = s, OF assms(1)]
    by simp
  then show "documents s' =
           (if list_ex (\<lambda>r. sql_eq (d_id r) i) (documents s)
            then map (\<lambda>r. if sql_eq (d_id r) i then payload_row i doc else r) (documents s)
            else documents s @ [payload_row i doc])"
    and "documents_fts s' =
           (case documents_fts s of
              None \<Rightarrow> None
            | Some f \<Rightarrow> Some (filter (\<lambda>e. \<not> sql_eq (f_document_id e) i) f
                               @ [payload_fts i doc]))"
    and "images s' = images s" and "images_seq s' = images_seq s"
    by simp_all
qed

lemma upsert_get_document:
  assumes "doc ''id'' = Some (Some i)" and "upsert_document s doc = Inr s'"
  shows "get_document s' i = Some (payload_row (Some i) doc)"
proof -
  let ?P = "\<lambda>r. sql_eq (d_id r) (Some i)"
  have P: "(\<lambda>r. d_id r = Some i) = ?P"
    by (auto simp: sql_eq_def)
  have row: "?P (payload_row (Some i) doc)"
    by (simp add: sql_eq_def payload_row_def)
  show ?thesis
    unfolding get_document_def P upsert_document_fields(1) [OF assms]
    using find_map_replace [of ?P "documents s", OF _ row]
      find_append_new [of ?P "documents s", OF _ row]
    by (cases "list_ex ?P (documents s)") simp_all
qed

lemma upsert_get_document_other:
  assumes "doc ''id'' = Some (Some i)" and "upsert_document s doc = Inr s'" and "j \<noteq> i"
  shows "get_document s' j = get_document s j"
proof -
  let ?P = "\<lambda>r. sql_eq (d_id r) (Some i)"
  let ?Q = "\<lambda>r. d_id r = Some j"
  have nq: "\<not> ?Q (payload_row (Some i) doc)"
    using assms(3) by (simp add: payload_row_def)
  have pq: "\<And>r. ?P r \<Longrightarrow> \<not> ?Q r"
    using assms(3) by (auto simp: sql_eq_def)
  show ?thesis
    unfolding get_document_def upsert_document_fields(1) [OF assms(1,2)]
    using find_map_other [of ?P ?Q, OF pq nq] find_append_other [of ?Q, OF nq]
    by simp
qed

lemma upsert_twice:
  assumes "doc ''id'' = Some (Some i)" and "upsert_document s doc = Inr s'"
  shows "upsert_document s' doc = Inr s'"
proof -
  let ?P = "\<lambda>r. sql_eq (d_id r) (Some i)"
  let ?row = "payload_row (Some i) doc"
  let ?F = "\<lambda>e. \<not> sql_eq (f_document_id e) (Some i)"
  note f = upsert_document_fields [OF assms]
  have row: "?P ?row"
    by (simp add: sql_eq_def payload_row_def)
  have ex: "list_ex ?P (documents s')"
    unfolding f(1) using row by (auto simp: list_ex_iff)
  have docs: "map (\<lambda>r. if ?P r then ?row else r) (documents s') = documents s'"
    unfolding f(1) using row by (auto intro!: map_idI simp: list_ex_iff)
  have nf: "\<not> ?F (payload_fts (Some i) doc)"
    by (simp add: sql_eq_def payload_fts_def)
  have fts: "(case documents_fts s' of None \<Rightarrow> None
              | Some f \<Rightarrow> Some (filter ?F f @ [payload_fts (Some i) doc])) = documents_fts s'"
    unfolding f(2) using nf by (auto split: option.splits)
  show ?thesis
    by (simp add: upsert_document_Inr [where doc = doc and i = "Some i" and s = s', OF assms(1)]
        ex docs fts)
qed

text \<open>
  C6. For a payload that carries a document id, \<open>upsert_document\<close> succeeds, and applying
  it a second time with the same payload returns the store the first application
  produced: the document row and the search-index entry (and everything else) are the
  same after two applications as after one. The row found under the id is the
  payload's row.
\<close>

theorem upsert_document_idempotent:
  assumes "doc ''id'' = Some (Some i)"
  shows "\<exists>s'. upsert_document s doc = Inr s' \<and> upsert_document s' doc = Inr s' \<and>
              get_document s' i = Some (payload_row (Some i) doc) \<and>
              (case documents_fts s' of
                 None \<Rightarrow> documents_fts s = None
               | Some f \<Rightarrow> filter (\<lambda>e. f_document_id e = Some i) f = [payload_fts (Some i) doc])"
proof -
  obtain s' where s': "upsert_document s doc = Inr s'"
    using assms by (simp add: upsert_document_Inr)
  have "case documents_fts s' of
          None \<Rightarrow> documents_fts s = None
        | Some f \<Rightarrow> filter (\<lambda>e. f_document_id e = Some i) f = [payload_fts (Some i) doc]"
    unfolding upsert_document_fields(2) [OF assms s']
    by (auto simp: sql_eq_def payload_fts_def filter_empty_conv split: option.splits)
  with s' upsert_twice [OF assms s'] upsert_get_document [OF assms s'] show ?thesis
    by blast
qed
definition payload_example :: pydict where
  "payload_example =
     [''id'' \<mapsto> Some (py ''d1''), ''title'' \<mapsto> Some (py ''Scan''),
      ''created_at'' \<mapsto> Some (py ''2025-06-01T12:00:00''),
      ''doc_type'' \<mapsto> Some (py ''Normal''), ''ocr_text'' \<mapsto> Some (py ''abc''),
      ''word_path'' \<mapsto> None, ''excel_path'' \<mapsto> None]"

theorem upsert_document_idempotent_witness:
  "payload_example ''id'' = Some (Some (py ''d1'')) \<and>
   (\<exists>s'. upsert_document store_example payload_example = Inr s' \<and>
         upsert_document s' payload_example = Inr s' \<and>
         get_document s' (py ''d1'') = Some (payload_row (Some (py ''d1'')) payload_example) \<and>
         (case documents_fts s' of
            None \<Rightarrow> documents_fts store_example = None
          | Some f \<Rightarrow> filter (\<lambda>e. f_document_id e = Some (py ''d1'')) f
                       = [payload_fts (Some (py ''d1'')) payload_example]))"
proof -
  have h: "payload_example ''id'' = Some (Some (py ''d1''))"
    by (simp add: payload_example_def)
  show ?thesis
    using h upsert_document_idempotent [where doc = payload_example and i = "py ''d1''"
        and s = store_example, OF h]
    by (intro conjI)
qed

text \<open>
  C5, as stated, fails: \<open>upsert_document\<close> on an existing id writes the payload's
  \<open>created_at\<close> over the stored one (\<^verbatim>\<open>created_at=excluded.created_at\<close>). Here the Document
  \<^verbatim>\<open>d1\<close>, created 2024-01-01, carries 2025-06-01 after an upsert.
\<close>

theorem created_at_overwritten_by_upsert:
  "map_option d_created_at (get_document store_example (py ''d1''))
     = Some (Some (py ''2024-01-01T00:00:00'')) \<and>
   (\<exists>s'. upsert_document store_example payload_example = Inr s' \<and>
         map_option d_created_at (get_document s' (py ''d1''))
           = Some (Some (py ''2025-06-01T12:00:00'')))"
proof -
  have h: "payload_example ''id'' = Some (Some (py ''d1''))"
    by (simp add: payload_example_def)
  have before: "map_option d_created_at (get_document store_example (py ''d1''))
      = Some (Some (py ''2024-01-01T00:00:00''))"
    by (simp add: get_document_def store_example_def)
  obtain s' where s': "upsert_document store_example payload_example = Inr s'"
    using h by (simp add: upsert_document_Inr)
  have "map_option d_created_at (get_document s' (py ''d1''))
      = Some (Some (py ''2025-06-01T12:00:00''))"
    unfolding upsert_get_document [OF h s']
    by (simp add: payload_row_def dict_get_def payload_example_def)
  with before s' show ?thesis
    by blast
qed

text \<open>
  C5, amended. \<open>upsert_document\<close> replaces the whole row: after it, the \<open>created_at\<close> stored
  under the payload's id is the payload's \<open>created_at\<close> (so it is the old one only when
  the payload repeats it), and the Documents with other ids are as before.
  \<open>insert_image\<close> and \<open>update_image_ocr\<close> leave the documents table unchanged.
\<close>

theorem created_at_follows_payload:
  assumes "doc ''id'' = Some (Some i)"
  shows "(\<exists>s'. upsert_document s doc = Inr s' \<and>
               map_option d_created_at (get_document s' i) = Some (dict_get doc ''created_at'') \<and>
               (\<forall>j. j \<noteq> i \<longrightarrow> get_document s' j = get_document s j)) \<and>
         documents (insert_image s document_id filename stored_path ocr_text) = documents s \<and>
         documents (update_image_ocr s document_id stored_path new_text) = documents s"
proof -
  obtain s' where s': "upsert_document s doc = Inr s'"
    using assms by (simp add: upsert_document_Inr)
  have "map_option d_created_at (get_document s' i) = Some (dict_get doc ''created_at'')"
    unfolding upsert_get_document [OF assms s'] by (simp add: payload_row_def)
  moreover have "\<forall>j. j \<noteq> i \<longrightarrow> get_document s' j = get_document s j"
    using upsert_get_document_other [OF assms s'] by blast
  ultimately show ?thesis
    using s' by (auto simp: insert_image_def update_image_ocr_def)
qed

theorem created_at_follows_payload_witness:
  "payload_example ''id'' = Some (Some (py ''d1'')) \<and>
   (\<exists>s'. upsert_document store_example payload_example = Inr s' \<and>
         map_option d_created_at (get_document s' (py ''d1''))
           = Some (dict_get payload_example ''created_at'') \<and>
         (\<forall>j. j \<noteq> py ''d1'' \<longrightarrow> get_document s' j = get_document store_example j)) \<and>
   dict_get payload_example ''created_at'' = Some (py ''2025-06-01T12:00:00'') \<and>
   documents (insert_image store_example (py ''d1'') (py ''a.png'') (py ''uploads/d1/a.png'') None)
     = documents store_example \<and>
   documents (update_image_ocr store_example (py ''d1'') (py ''uploads/d1/a.png'') (py ''abc''))
     = documents store_example"
proof -
  have h: "payload_example ''id'' = Some (Some (py ''d1''))"
    by (simp add: payload_example_def)
  have c: "dict_get payload_example ''created_at'' = Some (py ''2025-06-01T12:00:00'')"
    by (simp add: dict_get_def payload_example_def)
  note t = created_at_follows_payload [where doc = payload_example and i = "py ''d1''"
      and s = store_example and document_id = "py ''d1''" and filename = "py ''a.png''"
      and stored_path = "py ''uploads/d1/a.png''" and ocr_text = None and new_text = "py ''abc''",
      OF h]
  show ?thesis
    using h c t by blast
qed

subsection \<open>Properties of \<open>search_documents\<close>\<close>

lemma py_in_sublist: "py_in k t \<longleftrightarrow> sublist k t"
  by (induction t) (auto simp: sublist_Cons_right)

lemma py_in_py_strip: "py_in q t \<Longrightarrow> py_in (py_strip q) t"
proof -
  assume "py_in q t"
  then have "sublist q t"
    by (simp add: py_in_sublist)
  moreover have "sublist (py_strip q) q"
    using py_strip_decomp [of q] by (auto simp: sublist_def)
  ultimately show ?thesis
    using sublist_order.order_trans by (auto simp: py_in_sublist)
qed

lemma like_match_percent: "like_match ps t \<Longrightarrow> like_match (37 # ps) t"
  by (cases t) auto

lemma like_match_any: "like_match [37] t"
  by (induction t) auto

lemma like_match_prefix: "like_match (q @ [37]) (q @ r)"
proof (induction q)
  case Nil
  then show ?case by (simp add: like_match_any)
next
  case (Cons p ps)
  then show ?case
    using like_match_percent [of "ps @ [37]" "ps @ r"] by auto
qed

lemma like_match_contains: "like_match ([37] @ q @ [37]) (a @ q @ r)"
proof (induction a)
  case Nil
  then show ?case
    using like_match_percent [OF like_match_prefix, of q r] by simp
next
  case (Cons c a)
  then show ?case by simp
qed

lemma py_in_like: "py_in q t \<Longrightarrow> like_match ([37] @ q @ [37]) t"
  using like_match_contains by (auto simp: py_in_sublist sublist_def)

lemma set_order_by [simp]: "set (order_by_created_at_desc rows) = set rows"
  by (simp add: order_by_created_at_desc_def)

lemma length_order_by [simp]: "length (order_by_created_at_desc rows) = length rows"
  by (simp add: order_by_created_at_desc_def)

lemma sql_limit_subset: "set (sql_limit n rows) \<subseteq> set rows"
  by (auto simp: sql_limit_def dest: in_set_takeD)

lemma sql_limit_full:
  "set (sql_limit n rows) = set rows \<or> int (length (sql_limit n rows)) = n"
  by (cases "length rows \<le> nat n") (auto simp: sql_limit_def)

lemma c_str_no_nul: "0 \<notin> set (c_str t)"
  by (auto simp: c_str_def dest: set_takeWhileD)

lemma c_str_id: "0 \<notin> set t \<Longrightarrow> c_str t = t"
  by (induction t) (auto simp: c_str_def)

lemma py_in_set: "py_in q t \<Longrightarrow> set q \<subseteq> set t"
  by (auto simp: py_in_sublist sublist_def)

lemma py_in_c_str_like:
  assumes "py_in q (c_str t)"
  shows "sql_like (Some t) ([37] @ q @ [37])"
proof -
  have "0 \<notin> set q"
    using py_in_set [OF assms] c_str_no_nul [of t] by auto
  then have "c_str ([37] @ q @ [37]) = [37] @ q @ [37]"
    by (intro c_str_id) simp
  with py_in_like [OF assms] show ?thesis
    by (simp add: sql_like_def)
qed

text \<open>
  C7, as stated, fails. The Document below has the \<open>ocr_text\<close> \<^verbatim>\<open>abc\<close>, a NUL character,
  \<^verbatim>\<open> def ghi\<close>. The index holds the whole text, so the query \<^verbatim>\<open>def\<close> matches it on the
  index path (\<open>fts5_example\<close>, defined below, stands in for the FTS5 engine, which finds
  the token \<^verbatim>\<open>def\<close>), and the text contains \<^verbatim>\<open>def\<close>; the fallback scan reads the text up to
  the NUL character and selects nothing.
\<close>

definition fts5_example :: fts5_engine where
  "fts5_example q =
     Some (\<lambda>e. case f_ocr_text e of None \<Rightarrow> False | Some t \<Rightarrow> py_in q t)"

definition nul_store :: store where
  "nul_store =
     \<lparr>documents =
        [\<lparr>d_id = Some (py ''d1''), d_title = Some (py ''Scan''),
          d_created_at = Some (py ''2024-01-01T00:00:00''), d_doc_type = Some (py ''Normal''),
          d_ocr_text = Some (py ''abc'' @ [0] @ py '' def ghi''),
          d_word_path = None, d_excel_path = None\<rparr>],
      images = [],
      images_seq = 0,
      documents_fts =
        Some [\<lparr>f_document_id = Some (py ''d1''), f_title = Some (py ''Scan''),
               f_doc_type = Some (py ''Normal''),
               f_ocr_text = Some (py ''abc'' @ [0] @ py '' def ghi'')\<rparr>]\<rparr>"

theorem index_match_missed_by_scan:
  "py_strip (py ''def'') = py ''def'' \<and>
   fts_path nul_store fts5_example (py ''def'') None 100 = Some (documents nul_store) \<and>
   search_documents nul_store fts5_example (py ''def'') None 100 = Inr (documents nul_store) \<and>
   length (documents nul_store) = 1 \<and>
   d_ocr_text (hd (documents nul_store)) = Some (py ''abc'' @ [0] @ py '' def ghi'') \<and>
   py_in (py ''def'') (py ''abc'' @ [0] @ py '' def ghi'') \<and>
   like_rows nul_store (py ''def'') None = [] \<and>
   like_path nul_store (py ''def'') None 100 = Inr []"
proof -
  have q: "py_strip (py ''def'') = py ''def''"
    by (simp add: py_def py_strip_def py_isspace_def)
  have f: "fts_path nul_store fts5_example (py ''def'') None 100 = Some (documents nul_store)"
    by (simp add: fts_path_def nul_store_def fts5_example_def
        sql_eq_def doc_type_clause_def order_by_created_at_desc_def sql_limit_def py_def)
  have s: "search_documents nul_store fts5_example (py ''def'') None 100
      = Inr (documents nul_store)"
    by (simp add: search_documents_def Let_def q f)
  have n: "length (documents nul_store) = 1"
    by (simp add: nul_store_def)
  have t: "d_ocr_text (hd (documents nul_store)) = Some (py ''abc'' @ [0] @ py '' def ghi'')"
    by (simp add: nul_store_def)
  have i: "py_in (py ''def'') (py ''abc'' @ [0] @ py '' def ghi'')"
    by (simp add: py_def)
  have r: "like_rows nul_store (py ''def'') None = []"
    by (simp add: like_rows_def Let_def nul_store_def doc_type_clause_def sql_like_def
        c_str_def sqlite_upper_def py_def)
  have c: "\<not> like_too_complex ([37] @ py ''def'' @ [37])"
    by (simp add: like_too_complex_def utf8_len_def utf8_size_def py_def)
  have l: "like_path nul_store (py ''def'') None 100 = Inr []"
    using c by (simp add: like_path_def r order_by_created_at_desc_def sql_limit_def)
  show ?thesis
    using q f s n t i r l by (intro conjI)
qed

lemma search_documents_raises:
  assumes "fts_path s fts5 (py_strip query) doc_type limit = None" and "limit \<noteq> 0"
    and "like_too_complex ([37] @ py_strip query @ [37])"
    and "list_ex (doc_type_clause doc_type) (documents s)"
  shows "search_documents s fts5 query doc_type limit = Inl OperationalError"
  using assms by (simp add: search_documents_def Let_def like_path_def)

text \<open>
  C7, amended. Both paths of \<open>search_documents\<close> are given the same query text,
  \<open>doc_type\<close> filter and limit, and the rows either of them returns are rows of the
  documents table that pass the filter. Take a Document returned by the index path whose
  \<open>ocr_text\<close> contains the query text before its first NUL character. If the pattern
  \<^verbatim>\<open>%q%\<close> is longer than 50000 bytes and the limit is not 0, the fallback raises
  \<^verbatim>\<open>OperationalError\<close> and returns nothing. Otherwise the Document is among the rows the
  fallback scan selects, and the fallback returns it unless its result is cut at the
  limit.
\<close>

theorem index_match_found_by_scan:
  assumes "fts_path s fts5 q doc_type limit = Some rows" and "d \<in> set rows"
    and "d_ocr_text d = Some txt" and "py_in q (c_str txt)"
  shows "set rows \<subseteq> {r \<in> set (documents s). doc_type_clause doc_type r} \<and>
         d \<in> set (like_rows s q doc_type) \<and>
         (if limit \<noteq> 0 \<and> like_too_complex ([37] @ q @ [37])
          then like_path s q doc_type limit = Inl OperationalError
          else (\<exists>rows'. like_path s q doc_type limit = Inr rows' \<and>
                  (d \<in> set rows' \<or> int (length rows') = limit) \<and>
                  set rows' \<subseteq> {r \<in> set (documents s). doc_type_clause doc_type r}))"
proof -
  have rows: "set rows \<subseteq> {r \<in> set (documents s). doc_type_clause doc_type r}"
    using assms(1) sql_limit_subset
    by (fastforce simp: fts_path_def split: option.splits)
  have like: "sql_like (d_ocr_text d) ([37] @ q @ [37])"
    unfolding assms(3) by (rule py_in_c_str_like [OF assms(4)])
  have cand: "d \<in> set (like_rows s q doc_type)"
    using rows assms(2) like by (auto simp: like_rows_def Let_def)
  have ex: "list_ex (doc_type_clause doc_type) (documents s)"
    using rows assms(2) by (auto simp: list_ex_iff)
  let ?rows' = "sql_limit limit (order_by_created_at_desc (like_rows s q doc_type))"
  have scan: "set ?rows' \<subseteq> {r \<in> set (documents s). doc_type_clause doc_type r}"
    using sql_limit_subset [of limit "order_by_created_at_desc (like_rows s q doc_type)"]
    by (auto simp: like_rows_def Let_def)
  have full: "d \<in> set ?rows' \<or> int (length ?rows') = limit"
    using cand sql_limit_full [of limit "order_by_created_at_desc (like_rows s q doc_type)"]
    by auto
  have path: "if limit \<noteq> 0 \<and> like_too_complex ([37] @ q @ [37])
          then like_path s q doc_type limit = Inl OperationalError
          else (\<exists>rows'. like_path s q doc_type limit = Inr rows' \<and>
                  (d \<in> set rows' \<or> int (length rows') = limit) \<and>
                  set rows' \<subseteq> {r \<in> set (documents s). doc_type_clause doc_type r})"
  proof (cases "limit \<noteq> 0 \<and> like_too_complex ([37] @ q @ [37])")
    case True
    with ex have "like_path s q doc_type limit = Inl OperationalError"
      by (simp add: like_path_def)
    with True show ?thesis
      by simp
  next
    case False
    then have "like_path s q doc_type limit = Inr ?rows'"
      by (auto simp: like_path_def)
    with scan full have "\<exists>rows'. like_path s q doc_type limit = Inr rows' \<and>
        (d \<in> set rows' \<or> int (length rows') = limit) \<and>
        set rows' \<subseteq> {r \<in> set (documents s). doc_type_clause doc_type r}"
      by blast
    with False show ?thesis
      by auto
  qed
  from rows cand path show ?thesis
    by (intro conjI)
qed

text \<open>
  The spec's scenario: a Document whose \<open>ocr_text\<close> is \<^verbatim>\<open>hoa don 500000 vnd\<close> (with its
  Vietnamese letters), searched for its first two words.
\<close>

definition query_example :: pystr where
  "query_example = py ''h'' @ [243] @ py ''a '' @ [273, 417] @ py ''n''"

theorem index_match_found_by_scan_witness:
  "fts_path store_example fts5_example query_example None 100 = Some (documents store_example) \<and>
   hd (documents store_example) \<in> set (documents store_example) \<and>
   d_ocr_text (hd (documents store_example))
     = Some (py ''h'' @ [243] @ py ''a '' @ [273, 417] @ py ''n 500000 vnd'') \<and>
   py_in query_example (c_str (py ''h'' @ [243] @ py ''a '' @ [273, 417] @ py ''n 500000 vnd'')) \<and>
   \<not> like_too_complex ([37] @ query_example @ [37]) \<and>
   hd (documents store_example) \<in> set (like_rows store_example query_example None) \<and>
   like_path store_example query_example None 100 = Inr (documents store_example) \<and>
   search_documents store_example fts5_example query_example None 100
     = Inr (documents store_example)"
proof -
  have q: "py_strip query_example = query_example"
    by (simp add: query_example_def py_def py_strip_def py_isspace_def)
  have f: "fts_path store_example fts5_example query_example None 100
      = Some (documents store_example)"
    by (simp add: fts_path_def store_example_def fts5_example_def query_example_def
        sql_eq_def doc_type_clause_def order_by_created_at_desc_def sql_limit_def py_def)
  have m: "hd (documents store_example) \<in> set (documents store_example)"
    by (simp add: store_example_def)
  have t: "d_ocr_text (hd (documents store_example))
      = Some (py ''h'' @ [243] @ py ''a '' @ [273, 417] @ py ''n 500000 vnd'')"
    by (simp add: store_example_def)
  have i: "py_in query_example (c_str (py ''h'' @ [243] @ py ''a '' @ [273, 417] @ py ''n 500000 vnd''))"
    by (simp add: query_example_def py_def c_str_def)
  have c: "\<not> like_too_complex ([37] @ query_example @ [37])"
    by (simp add: like_too_complex_def utf8_len_def utf8_size_def query_example_def py_def)
  note w = index_match_found_by_scan [OF f m t i]
  have r: "hd (documents store_example) \<in> set (like_rows store_example query_example None)"
    using w by (elim conjE)
  from w c obtain rows' where
    p: "like_path store_example query_example None 100 = Inr rows'"
    and h: "hd (documents store_example) \<in> set rows' \<or> int (length rows') = 100"
    and u: "set rows' \<subseteq> {r \<in> set (documents store_example). doc_type_clause None r}"
    by auto
  obtain x where one: "documents store_example = [x]"
    by (simp add: store_example_def)
  have "rows' = sql_limit 100 (order_by_created_at_desc (like_rows store_example query_example None))"
    using p c by (simp add: like_path_def)
  also have "like_rows store_example query_example None = documents store_example"
    using r by (simp add: like_rows_def Let_def one split: if_splits)
  also have "sql_limit 100 (order_by_created_at_desc (documents store_example))
      = documents store_example"
    by (simp add: store_example_def order_by_created_at_desc_def sql_limit_def)
  finally have l: "like_path store_example query_example None 100 = Inr (documents store_example)"
    using p by simp
  have s: "search_documents store_example fts5_example query_example None 100
      = Inr (documents store_example)"
    by (simp add: search_documents_def Let_def q f)
  show ?thesis
    using f m t i c r l s by (intro conjI)
qed

section \<open>main.py: the ingestion pipeline\<close>

text \<open>
  \<^verbatim>\<open>page_upload\<close> from the submitted form to \<^verbatim>\<open>upsert_document\<close> (the rest of the function
  only renders the result). What the function reads from outside is the environment:
  the id and the timestamp it is given, the two directories, whether making a directory
  and writing a file succeed, whether \<^verbatim>\<open>get_ocr_reader\<close> returns a reader, what the
  recognizer returns for a stored image (\<open>None\<close> when it raises) and whether each
  exporter succeeds. Besides the store, the run leaves a trace of the calls it made, in
  order. The calls into the store and into Streamlit are taken to return.
\<close>

record upload_form =
  title :: pystr
  enhance :: bool
  run_now :: bool
  files :: "pystr list"
  submitted :: bool

record environment =
  new_doc_id :: pystr
  now_iso :: pystr
  uploads_dir :: pystr
  exports_dir :: pystr
  mkdir_ok :: "pystr \<Rightarrow> bool"
  write_bytes_ok :: "pystr \<Rightarrow> bool"
  get_ocr_reader_ok :: bool
  run_easyocr :: "pystr \<Rightarrow> bool \<Rightarrow> pystr option"
  export_to_word_ok :: bool
  export_to_excel_ok :: bool
  unicode :: ucd

datatype event =
    Mkdir pystr
  | WriteBytes pystr
  | InsertImage pystr pystr
  | GetOcrReader
  | RunEasyocr pystr
  | UpdateImageOcr pystr pystr
  | ExportToWord pystr
  | ExportToExcel pystr
  | UpsertDocument pystr sqlval sqlval

datatype outcome = NotSubmitted | NoFiles | Raised | Completed

text \<open>
  \<^verbatim>\<open>str(directory / name)\<close> for a name without a separator: pathlib drops an empty name
  and the name \<^verbatim>\<open>.\<close>, and joins any other name with a slash.
\<close>

definition path_join :: "pystr \<Rightarrow> pystr \<Rightarrow> pystr" where
  "path_join dir name = (if name = [] \<or> name = [46] then dir else dir @ [47] @ name)"

text \<open>
  \<^verbatim>\<open>
  for f in files:
      fn = safe_filename(f.name)
      out_path = upload_dir / fn
      out_path.write_bytes(f.getbuffer())
      insert_image(conn, doc_id, fn, str(out_path), ocr_text=None)
      saved_images.append({"filename": fn, "stored_path": out_path, "ocr_text": ""})
  \<close>
  A failing write raises out of \<^verbatim>\<open>page_upload\<close>: the last component of the result is
  \<open>False\<close> then, and the images inserted so far stay in the store.
\<close>

fun save_images ::
  "environment \<Rightarrow> pystr \<Rightarrow> pystr \<Rightarrow> pystr list \<Rightarrow> store
     \<Rightarrow> store \<times> (pystr \<times> pystr) list \<times> event list \<times> bool" where
  "save_images E doc_id upload_dir [] s = (s, [], [], True)"
| "save_images E doc_id upload_dir (f # fs) s =
     (let fn = safe_filename f;
          out_path = path_join upload_dir fn
      in if \<not> write_bytes_ok E out_path then (s, [], [WriteBytes out_path], False)
         else (case save_images E doc_id upload_dir fs
                      (insert_image s doc_id fn out_path None) of
                 (s', saved, evs, ok) \<Rightarrow>
                   (s', (fn, out_path) # saved,
                    WriteBytes out_path # InsertImage fn out_path # evs, ok)))"

text \<open>
  \<^verbatim>\<open>
  for i, img in enumerate(saved_images, start=1):
      try:
          text, conf = run_easyocr(reader, str(img["stored_path"]), enhance=enhance)
      except Exception as e:
          text = ""
      update_image_ocr(conn, doc_id, str(img["stored_path"]), text)
      if text:
          combined_text += f"\n\n--- {img['filename']} ---\n{text}"
  \<close>
\<close>

fun ocr_images ::
  "environment \<Rightarrow> bool \<Rightarrow> pystr \<Rightarrow> (pystr \<times> pystr) list \<Rightarrow> store \<Rightarrow> pystr
     \<Rightarrow> store \<times> pystr \<times> event list" where
  "ocr_images E enh doc_id [] s combined_text = (s, combined_text, [])"
| "ocr_images E enh doc_id ((fn, stored_path) # imgs) s combined_text =
     (let text = (case run_easyocr E stored_path enh of None \<Rightarrow> [] | Some t \<Rightarrow> t);
          s1 = update_image_ocr s doc_id stored_path text;
          combined1 = (if text \<noteq> []
                       then combined_text @ [10, 10] @ py ''--- '' @ fn @ py '' ---'' @ [10] @ text
                       else combined_text)
      in case ocr_images E enh doc_id imgs s1 combined1 of
           (s', combined', evs) \<Rightarrow>
             (s', combined', RunEasyocr stored_path # UpdateImageOcr stored_path text # evs))"

text \<open>
  The export step and the upsert that follows it:
  \<^verbatim>\<open>
  word_path = export_dir / f"{doc_id}.docx"
  excel_path = export_dir / f"{doc_id}.xlsx"
  try:
      export_to_word(out_path=word_path, ...)
      export_to_excel(out_path=excel_path, ...)
  except Exception as e:
      word_path = None
      excel_path = None
  upsert_document(conn, {"id": doc_id, "title": title or f"Document {doc_id}",
      "created_at": created_at, "doc_type": doc_type, "ocr_text": combined_text,
      "word_path": str(word_path) if word_path else None,
      "excel_path": str(excel_path) if excel_path else None})
  \<close>
  \<^verbatim>\<open>export_to_excel\<close> is not called when \<^verbatim>\<open>export_to_word\<close> raised.
\<close>

definition export_dir_of :: "environment \<Rightarrow> pystr" where
  "export_dir_of E = path_join (exports_dir E) (new_doc_id E)"

definition word_path_of :: "environment \<Rightarrow> pystr" where
  "word_path_of E = path_join (export_dir_of E) (new_doc_id E @ py ''.docx'')"

definition excel_path_of :: "environment \<Rightarrow> pystr" where
  "excel_path_of E = path_join (export_dir_of E) (new_doc_id E @ py ''.xlsx'')"

definition export_attempts :: "environment \<Rightarrow> event list" where
  "export_attempts E =
     ExportToWord (word_path_of E)
       # (if export_to_word_ok E then [ExportToExcel (excel_path_of E)] else [])"

definition exported :: "environment \<Rightarrow> bool" where
  "exported E \<longleftrightarrow> export_to_word_ok E \<and> export_to_excel_ok E"

definition document_payload :: "environment \<Rightarrow> upload_form \<Rightarrow> pystr \<Rightarrow> pystr \<Rightarrow> pydict" where
  "document_payload E F doc_type combined_text =
     [''id'' \<mapsto> Some (new_doc_id E),
      ''title'' \<mapsto> Some (if title F \<noteq> [] then title F else py ''Document '' @ new_doc_id E),
      ''created_at'' \<mapsto> Some (now_iso E),
      ''doc_type'' \<mapsto> Some doc_type,
      ''ocr_text'' \<mapsto> Some combined_text,
      ''word_path'' \<mapsto> (if exported E then Some (word_path_of E) else None),
      ''excel_path'' \<mapsto> (if exported E then Some (excel_path_of E) else None)]"

definition export_and_upsert ::
  "environment \<Rightarrow> upload_form \<Rightarrow> pystr \<Rightarrow> pystr \<Rightarrow> store \<Rightarrow> store \<times> event list \<times> outcome" where
  "export_and_upsert E F doc_type combined_text s =
     (let doc = document_payload E F doc_type combined_text
      in case upsert_document s doc of
           Inl e \<Rightarrow> (s, export_attempts E, Raised)
         | Inr s' \<Rightarrow>
             (s', export_attempts E
                    @ [UpsertDocument (new_doc_id E) (dict_get doc ''word_path'')
                         (dict_get doc ''excel_path'')],
              Completed))"

text \<open>
  \<^verbatim>\<open>doc_upload_dir\<close> and \<^verbatim>\<open>doc_export_dir\<close> make the two directories of the Document
  before anything is saved. With \<^verbatim>\<open>run_now\<close> set, \<^verbatim>\<open>reader = get_ocr_reader()\<close> is called
  after the images are saved and outside every \<^verbatim>\<open>try\<close>: when it raises, the run stops
  there, with the images saved and nothing exported or upserted.
\<close>

definition page_upload ::
  "environment \<Rightarrow> upload_form \<Rightarrow> store \<Rightarrow> store \<times> event list \<times> outcome" where
  "page_upload E F s =
     (if \<not> submitted F then (s, [], NotSubmitted)
      else if files F = [] then (s, [], NoFiles)
      else
        (let doc_id = new_doc_id E;
             upload_dir = path_join (uploads_dir E) doc_id;
             export_dir = path_join (exports_dir E) doc_id
         in if \<not> mkdir_ok E upload_dir then (s, [Mkdir upload_dir], Raised)
            else if \<not> mkdir_ok E export_dir
            then (s, [Mkdir upload_dir, Mkdir export_dir], Raised)
            else
              (case save_images E doc_id upload_dir (files F) s of
                 (s1, saved_images, ev1, ok) \<Rightarrow>
                   if \<not> ok then (s1, [Mkdir upload_dir, Mkdir export_dir] @ ev1, Raised)
                   else if run_now F \<and> \<not> get_ocr_reader_ok E
                   then (s1, [Mkdir upload_dir, Mkdir export_dir] @ ev1 @ [GetOcrReader],
                         Raised)
                   else
                     (case (if run_now F
                            then (case ocr_images E (enhance F) doc_id saved_images s1 [] of
                                    (s2, combined_text, ev2) \<Rightarrow>
                                      (s2, combined_text, GetOcrReader # ev2))
                            else (s1, [], [])) of
                        (s2, combined_text, ev2) \<Rightarrow>
                          (let doc_type = classify_document (unicode E) (Some combined_text)
                           in case export_and_upsert E F doc_type combined_text s2 of
                                (s3, ev3, out) \<Rightarrow>
                                  (s3, [Mkdir upload_dir, Mkdir export_dir] @ ev1 @ ev2 @ ev3,
                                   out))))))"

text \<open>
  Persisting before exporting, as a property of the trace: the first call among the
  exports and the upserts is an upsert whose \<open>word_path\<close> and \<open>excel_path\<close> are unset.
  An event is quiet when it is neither an export nor an upsert.
\<close>

fun is_export :: "event \<Rightarrow> bool" where
  "is_export (ExportToWord p) = True"
| "is_export (ExportToExcel p) = True"
| "is_export e = False"

fun is_upsert :: "event \<Rightarrow> bool" where
  "is_upsert (UpsertDocument i w x) = True"
| "is_upsert e = False"

fun persisted_before_export :: "event list \<Rightarrow> bool" where
  "persisted_before_export [] = False"
| "persisted_before_export (UpsertDocument i w x # tr) = (w = None \<and> x = None)"
| "persisted_before_export (ExportToWord p # tr) = False"
| "persisted_before_export (ExportToExcel p # tr) = False"
| "persisted_before_export (e # tr) = persisted_before_export tr"

definition quiet :: "event \<Rightarrow> bool" where
  "quiet e \<longleftrightarrow> \<not> is_export e \<and> \<not> is_upsert e"

text \<open>
  A run reaches the export step when the two directories can be made, every
  \<^verbatim>\<open>out_path.write_bytes\<close> of the loop over the uploaded files succeeds and, with
  \<^verbatim>\<open>run_now\<close> set, \<^verbatim>\<open>get_ocr_reader\<close> returns.
\<close>

definition writes_ok :: "environment \<Rightarrow> upload_form \<Rightarrow> bool" where
  "writes_ok E F \<longleftrightarrow>
     list_all (\<lambda>f. write_bytes_ok E
                 (path_join (path_join (uploads_dir E) (new_doc_id E)) (safe_filename f)))
       (files F)"

definition reaches_export :: "environment \<Rightarrow> upload_form \<Rightarrow> bool" where
  "reaches_export E F \<longleftrightarrow>
     mkdir_ok E (path_join (uploads_dir E) (new_doc_id E)) \<and>
     mkdir_ok E (path_join (exports_dir E) (new_doc_id E)) \<and>
     writes_ok E F \<and>
     (if run_now F then get_ocr_reader_ok E else True)"

subsection \<open>Properties of the pipeline\<close>

lemma quiet_simps [simp]:
  "quiet (Mkdir p)" "quiet GetOcrReader"
  "quiet (WriteBytes p)" "quiet (InsertImage fn p)" "quiet (RunEasyocr p)"
  "quiet (UpdateImageOcr p t)" "\<not> quiet (ExportToWord p)" "\<not> quiet (ExportToExcel p)"
  "\<not> quiet (UpsertDocument i w x)"
  by (simp_all add: quiet_def)

lemma save_images_frame:
  "save_images E doc_id upload_dir fs s = (s', saved, evs, ok) \<Longrightarrow>
   list_all quiet evs \<and> documents s' = documents s \<and> documents_fts s' = documents_fts s"
proof (induction fs arbitrary: s s' saved evs ok)
  case Nil
  then show ?case by simp
next
  case (Cons f fs)
  let ?p = "path_join upload_dir (safe_filename f)"
  show ?case
  proof (cases "write_bytes_ok E ?p")
    case False
    with Cons.prems show ?thesis
      by (auto simp: Let_def)
  next
    case True
    obtain s1 saved1 evs1 ok1 where r:
      "save_images E doc_id upload_dir fs (insert_image s doc_id (safe_filename f) ?p None)
         = (s1, saved1, evs1, ok1)"
      by (metis prod_cases4)
    from Cons.IH [OF r] have "list_all quiet evs1"
      and "documents s1 = documents s" and "documents_fts s1 = documents_fts s"
      by (simp_all add: insert_image_def)
    with Cons.prems True r show ?thesis
      by (auto simp: Let_def)
  qed
qed

lemma ocr_images_frame:
  "ocr_images E enh doc_id imgs s c = (s', c', evs) \<Longrightarrow>
   list_all quiet evs \<and> documents s' = documents s \<and> documents_fts s' = documents_fts s"
proof (induction imgs arbitrary: s c s' c' evs)
  case Nil
  then show ?case by simp
next
  case (Cons img imgs)
  obtain fn stored_path where img: "img = (fn, stored_path)"
    by (cases img)
  let ?text = "case run_easyocr E stored_path enh of None \<Rightarrow> [] | Some t \<Rightarrow> t"
  let ?s1 = "update_image_ocr s doc_id stored_path ?text"
  let ?c1 = "if ?text \<noteq> [] then c @ [10, 10] @ py ''--- '' @ fn @ py '' ---'' @ [10] @ ?text
             else c"
  obtain s2 c2 evs2 where r: "ocr_images E enh doc_id imgs ?s1 ?c1 = (s2, c2, evs2)"
    by (metis prod_cases3)
  from Cons.IH [OF r] have "list_all quiet evs2"
    and "documents s2 = documents s" and "documents_fts s2 = documents_fts s"
    by (simp_all add: update_image_ocr_def)
  with Cons.prems img r show ?case
    by (auto simp: Let_def)
qed

lemma persisted_before_export_quiet:
  "list_all quiet pre \<Longrightarrow> persisted_before_export (pre @ tr) = persisted_before_export tr"
proof (induction pre)
  case Nil
  then show ?case by simp
next
  case (Cons e pre)
  then show ?case by (cases e) simp_all
qed

lemma document_payload_id:
  "document_payload E F doc_type combined_text ''id'' = Some (Some (new_doc_id E))"
  by (simp add: document_payload_def)

lemma document_payload_paths:
  "dict_get (document_payload E F doc_type combined_text) ''word_path''
     = (if exported E then Some (word_path_of E) else None)"
  "dict_get (document_payload E F doc_type combined_text) ''excel_path''
     = (if exported E then Some (excel_path_of E) else None)"
  by (simp_all add: document_payload_def dict_get_def)

lemma get_document_cong:
  "documents s = documents t \<Longrightarrow> get_document s j = get_document t j"
  by (simp add: get_document_def)

subsection \<open>A run of the pipeline\<close>

definition env_example :: environment where
  "env_example =
     \<lparr>new_doc_id = py ''0123456789ab'', now_iso = py ''2025-06-01T12:00:00'',
      uploads_dir = py ''data/uploads'', exports_dir = py ''data/exports'',
      mkdir_ok = (\<lambda>p. True), write_bytes_ok = (\<lambda>p. True), get_ocr_reader_ok = True,
      run_easyocr = (\<lambda>p e. Some []),
      export_to_word_ok = True, export_to_excel_ok = True, unicode = ucd_excerpt\<rparr>"

definition form_example :: upload_form where
  "form_example =
     \<lparr>title = py ''Scan'', enhance = False, run_now = False, files = [py ''a.png''],
      submitted = True\<rparr>"

lemma safe_filename_a_png: "safe_filename (py ''a.png'') = py ''a.png''"
  by (rule safe_filename_fixed) (simp_all add: py_def safe_char_def)

lemma classify_document_empty: "classify_document ucd_excerpt (Some []) = py ''Normal''"
proof -
  have n: "normalize_text ucd_excerpt (Some []) = []"
    by (simp add: normalize_text_def py_lower_def py_strip_def)
  have g: "hits gov_keywords [] = 0"
    by (simp add: hits_def gov_keywords_def py_def)
  have i: "hits invoice_keywords [] = 0"
    by (simp add: hits_def invoice_keywords_def py_def)
  show ?thesis
    by (simp add: classify_document_def n g i)
qed

definition env_export_fails :: environment where
  "env_export_fails = env_example\<lparr>export_to_word_ok := False\<rparr>"

definition payload_with_paths :: pydict where
  "payload_with_paths =
     [''id'' \<mapsto> Some (py ''0123456789ab''), ''title'' \<mapsto> Some (py ''Scan''),
      ''created_at'' \<mapsto> Some (py ''2025-06-01T12:00:00''),
      ''doc_type'' \<mapsto> Some (py ''Normal''), ''ocr_text'' \<mapsto> Some [],
      ''word_path'' \<mapsto> Some (py ''data/exports/0123456789ab/0123456789ab.docx''),
      ''excel_path'' \<mapsto> Some (py ''data/exports/0123456789ab/0123456789ab.xlsx'')]"

text \<open>
  C2, as stated, fails: \<open>page_upload\<close> calls the exports first and \<open>upsert_document\<close> last.
  Here one image is uploaded, OCR is not run and both exports succeed: the trace has the
  two exports before the only upsert, and that upsert carries both paths.
\<close>

theorem export_precedes_upsert:
  "snd (page_upload env_example form_example store_example)
     = ([Mkdir (py ''data/uploads/0123456789ab''), Mkdir (py ''data/exports/0123456789ab''),
         WriteBytes (py ''data/uploads/0123456789ab/a.png''),
         InsertImage (py ''a.png'') (py ''data/uploads/0123456789ab/a.png''),
         ExportToWord (py ''data/exports/0123456789ab/0123456789ab.docx''),
         ExportToExcel (py ''data/exports/0123456789ab/0123456789ab.xlsx''),
         UpsertDocument (py ''0123456789ab'')
           (Some (py ''data/exports/0123456789ab/0123456789ab.docx''))
           (Some (py ''data/exports/0123456789ab/0123456789ab.xlsx''))],
        Completed) \<and>
   \<not> persisted_before_export (fst (snd (page_upload env_example form_example store_example)))"
proof -
  have sf: "safe_filename [97, 46, 112, 110, 103] = [97, 46, 112, 110, 103]"
    using safe_filename_a_png by (simp add: py_def)
  have cl: "classify_document ucd_excerpt (Some []) = [78, 111, 114, 109, 97, 108]"
    using classify_document_empty by (simp add: py_def)
  have r: "snd (page_upload env_example form_example store_example)
     = ([Mkdir (py ''data/uploads/0123456789ab''), Mkdir (py ''data/exports/0123456789ab''),
         WriteBytes (py ''data/uploads/0123456789ab/a.png''),
         InsertImage (py ''a.png'') (py ''data/uploads/0123456789ab/a.png''),
         ExportToWord (py ''data/exports/0123456789ab/0123456789ab.docx''),
         ExportToExcel (py ''data/exports/0123456789ab/0123456789ab.xlsx''),
         UpsertDocument (py ''0123456789ab'')
           (Some (py ''data/exports/0123456789ab/0123456789ab.docx''))
           (Some (py ''data/exports/0123456789ab/0123456789ab.xlsx''))],
        Completed)"
    by (simp add: page_upload_def env_example_def form_example_def Let_def
        sf cl export_and_upsert_def
        upsert_document_def document_payload_def export_attempts_def exported_def
        word_path_of_def excel_path_of_def export_dir_of_def path_join_def dict_get_def
        split_def py_def)
  show ?thesis
    unfolding r by simp
qed

lemma export_and_upsert_completed:
  "\<exists>s3. export_and_upsert E F d c t
     = (s3, export_attempts E
              @ [UpsertDocument (new_doc_id E)
                   (if exported E then Some (word_path_of E) else None)
                   (if exported E then Some (excel_path_of E) else None)],
        Completed) \<and>
     upsert_document t (document_payload E F d c) = Inr s3"
proof -
  obtain s3 where "upsert_document t (document_payload E F d c) = Inr s3"
    by (simp add: upsert_document_Inr [where i = "Some (new_doc_id E)"] document_payload_id)
  then show ?thesis
    by (simp add: export_and_upsert_def Let_def document_payload_paths)
qed

lemma ocr_step_frame:
  assumes "(if run_now F
            then (case ocr_images E (enhance F) doc_id saved s1 [] of
                    (s2, combined_text, ev2) \<Rightarrow> (s2, combined_text, GetOcrReader # ev2))
            else (s1, [], [])) = (s2, combined, ev2)"
  shows "list_all quiet ev2 \<and> documents s2 = documents s1 \<and> documents_fts s2 = documents_fts s1"
proof (cases "run_now F")
  case False
  with assms show ?thesis by simp
next
  case True
  obtain t c evs where o: "ocr_images E (enhance F) doc_id saved s1 [] = (t, c, evs)"
    by (metis prod_cases3)
  from assms True o have "s2 = t" "ev2 = GetOcrReader # evs"
    by simp_all
  with ocr_images_frame [OF o] show ?thesis
    by simp
qed

lemma page_upload_completed:
  assumes "page_upload E F s = (s', tr, Completed)"
  shows "(\<exists>pre. list_all quiet pre \<and>
            tr = pre @ export_attempts E
                   @ [UpsertDocument (new_doc_id E)
                        (if exported E then Some (word_path_of E) else None)
                        (if exported E then Some (excel_path_of E) else None)]) \<and>
         \<not> persisted_before_export tr \<and>
         map_option d_word_path (get_document s' (new_doc_id E))
           = Some (if exported E then Some (word_path_of E) else None) \<and>
         map_option d_excel_path (get_document s' (new_doc_id E))
           = Some (if exported E then Some (excel_path_of E) else None) \<and>
         (\<forall>j. j \<noteq> new_doc_id E \<longrightarrow> get_document s' j = get_document s j) \<and>
         (\<forall>doc. doc ''id'' = Some (Some (new_doc_id E)) \<longrightarrow>
            (\<exists>s''. upsert_document s' doc = Inr s'' \<and>
                   get_document s'' (new_doc_id E)
                     = Some (payload_row (Some (new_doc_id E)) doc)))"
proof -
  let ?id = "new_doc_id E"
  let ?up = "path_join (uploads_dir E) ?id"
  let ?ex = "path_join (exports_dir E) ?id"
  let ?w = "if exported E then Some (word_path_of E) else None"
  let ?x = "if exported E then Some (excel_path_of E) else None"
  from assms have sub: "submitted F" "files F \<noteq> []"
    by (auto simp: page_upload_def split: if_splits)
  from assms sub have mk: "mkdir_ok E ?up" "mkdir_ok E ?ex"
    by (auto simp: page_upload_def Let_def split: if_splits)
  obtain s1 saved ev1 ok where sv:
    "save_images E ?id ?up (files F) s = (s1, saved, ev1, ok)"
    by (metis prod_cases4)
  from assms sub mk sv have ok: "ok"
    by (auto simp: page_upload_def Let_def split: if_splits)
  from assms sub mk sv ok have rd: "\<not> (run_now F \<and> \<not> get_ocr_reader_ok E)"
    by (auto simp: page_upload_def Let_def split: if_splits)
  obtain s2 combined ev2 where oc:
    "(if run_now F
      then (case ocr_images E (enhance F) ?id saved s1 [] of
              (s2, combined_text, ev2) \<Rightarrow> (s2, combined_text, GetOcrReader # ev2))
      else (s1, [], [])) = (s2, combined, ev2)"
    by (metis prod_cases3)
  let ?doc = "document_payload E F (classify_document (unicode E) (Some combined)) combined"
  obtain s3 where ex: "export_and_upsert E F (classify_document (unicode E) (Some combined))
       combined s2 = (s3, export_attempts E @ [UpsertDocument ?id ?w ?x], Completed)"
    and up: "upsert_document s2 ?doc = Inr s3"
    using export_and_upsert_completed by blast
  from assms sub mk sv ok rd have
    "(s', tr, Completed) =
       (case (if run_now F
              then (case ocr_images E (enhance F) ?id saved s1 [] of
                      (s2, combined_text, ev2) \<Rightarrow> (s2, combined_text, GetOcrReader # ev2))
              else (s1, [], [])) of
          (s2, combined_text, ev2) \<Rightarrow>
            (case export_and_upsert E F (classify_document (unicode E) (Some combined_text))
                    combined_text s2 of
               (s3, ev3, out) \<Rightarrow> (s3, [Mkdir ?up, Mkdir ?ex] @ ev1 @ ev2 @ ev3, out)))"
    by (simp add: page_upload_def Let_def)
  then have res:
    "s' = s3" "tr = [Mkdir ?up, Mkdir ?ex] @ ev1 @ ev2 @ export_attempts E @ [UpsertDocument ?id ?w ?x]"
    unfolding oc by (simp_all add: ex)
  have f1: "list_all quiet ev1" "documents s1 = documents s"
    using save_images_frame [OF sv] by simp_all
  have f2: "list_all quiet ev2" "documents s2 = documents s1"
    using ocr_step_frame [OF oc] by simp_all
  have pre: "list_all quiet ([Mkdir ?up, Mkdir ?ex] @ ev1 @ ev2)"
    using f1(1) f2(1) by simp
  have tr: "tr = ([Mkdir ?up, Mkdir ?ex] @ ev1 @ ev2) @ export_attempts E @ [UpsertDocument ?id ?w ?x]"
    using res(2) by simp
  have c1: "\<exists>pre. list_all quiet pre \<and> tr = pre @ export_attempts E @ [UpsertDocument ?id ?w ?x]"
    using pre tr by blast
  have c2: "\<not> persisted_before_export tr"
    unfolding tr persisted_before_export_quiet [OF pre]
    by (simp add: export_attempts_def)
  have row: "get_document s' ?id = Some (payload_row (Some ?id) ?doc)"
    unfolding res(1) by (rule upsert_get_document [OF document_payload_id up])
  have c3: "map_option d_word_path (get_document s' ?id) = Some ?w"
    unfolding row by (simp add: payload_row_def document_payload_paths)
  have c4: "map_option d_excel_path (get_document s' ?id) = Some ?x"
    unfolding row by (simp add: payload_row_def document_payload_paths)
  have c5: "\<forall>j. j \<noteq> ?id \<longrightarrow> get_document s' j = get_document s j"
  proof (intro allI impI)
    fix j assume "j \<noteq> ?id"
    then have "get_document s3 j = get_document s2 j"
      by (rule upsert_get_document_other [OF document_payload_id up])
    also have "\<dots> = get_document s j"
      using f1(2) f2(2) by (intro get_document_cong) simp
    finally show "get_document s' j = get_document s j"
      by (simp add: res(1))
  qed
  have c6: "\<forall>doc. doc ''id'' = Some (Some ?id) \<longrightarrow>
      (\<exists>s''. upsert_document s' doc = Inr s'' \<and>
             get_document s'' ?id = Some (payload_row (Some ?id) doc))"
  proof (intro allI impI)
    fix doc :: pydict assume d: "doc ''id'' = Some (Some ?id)"
    obtain s'' where u: "upsert_document s' doc = Inr s''"
      using d by (simp add: upsert_document_Inr [where i = "Some ?id"])
    with upsert_get_document [OF d u] show
      "\<exists>s''. upsert_document s' doc = Inr s'' \<and>
             get_document s'' ?id = Some (payload_row (Some ?id) doc)"
      by blast
  qed
  from c1 c2 c3 c4 c5 c6 show ?thesis
    by (intro conjI)
qed

lemma save_images_ok:
  "snd (snd (snd (save_images E doc_id upload_dir fs s)))
     = list_all (\<lambda>f. write_bytes_ok E (path_join upload_dir (safe_filename f))) fs"
  by (induction fs arbitrary: s) (simp_all add: Let_def split_def)

lemma page_upload_reaches:
  assumes "submitted F" and "files F \<noteq> []" and "reaches_export E F"
  shows "snd (snd (page_upload E F s)) = Completed"
proof -
  let ?id = "new_doc_id E"
  let ?up = "path_join (uploads_dir E) ?id"
  let ?ex = "path_join (exports_dir E) ?id"
  obtain s1 saved ev1 ok where sv:
    "save_images E ?id ?up (files F) s = (s1, saved, ev1, ok)"
    by (metis prod_cases4)
  have okw: "ok = writes_ok E F"
    using save_images_ok [of E ?id ?up "files F" s] sv by (simp add: writes_ok_def)
  from assms(3) have c: "mkdir_ok E ?up" "mkdir_ok E ?ex" "ok"
    "\<not> (run_now F \<and> \<not> get_ocr_reader_ok E)"
    unfolding reaches_export_def okw by (simp_all split: if_splits)
  obtain s2 combined ev2 where oc:
    "(if run_now F
      then (case ocr_images E (enhance F) ?id saved s1 [] of
              (s2, combined_text, ev2) \<Rightarrow> (s2, combined_text, GetOcrReader # ev2))
      else (s1, [], [])) = (s2, combined, ev2)"
    by (metis prod_cases3)
  obtain s3 ev3 where ex: "export_and_upsert E F (classify_document (unicode E) (Some combined))
       combined s2 = (s3, ev3, Completed)"
    using export_and_upsert_completed by blast
  from assms(1,2) c sv have
    "page_upload E F s =
       (case (if run_now F
              then (case ocr_images E (enhance F) ?id saved s1 [] of
                      (s2, combined_text, ev2) \<Rightarrow> (s2, combined_text, GetOcrReader # ev2))
              else (s1, [], [])) of
          (s2, combined_text, ev2) \<Rightarrow>
            (case export_and_upsert E F (classify_document (unicode E) (Some combined_text))
                    combined_text s2 of
               (s3, ev3, out) \<Rightarrow> (s3, [Mkdir ?up, Mkdir ?ex] @ ev1 @ ev2 @ ev3, out)))"
    by (cases "run_now F") (simp_all add: page_upload_def Let_def)
  then show ?thesis
    unfolding oc by (simp add: ex)
qed

lemma page_upload_stops:
  assumes "submitted F" and "files F \<noteq> []" and "\<not> reaches_export E F"
  shows "\<exists>s' tr. page_upload E F s = (s', tr, Raised) \<and> list_all quiet tr \<and>
           documents s' = documents s \<and> documents_fts s' = documents_fts s"
proof -
  let ?id = "new_doc_id E"
  let ?up = "path_join (uploads_dir E) ?id"
  let ?ex = "path_join (exports_dir E) ?id"
  obtain s1 saved ev1 ok where sv:
    "save_images E ?id ?up (files F) s = (s1, saved, ev1, ok)"
    by (metis prod_cases4)
  have f1: "list_all quiet ev1" "documents s1 = documents s" "documents_fts s1 = documents_fts s"
    using save_images_frame [OF sv] by simp_all
  have okw: "ok = writes_ok E F"
    using save_images_ok [of E ?id ?up "files F" s] sv by (simp add: writes_ok_def)
  from assms(3) consider "\<not> mkdir_ok E ?up" | "mkdir_ok E ?up" "\<not> mkdir_ok E ?ex"
    | "mkdir_ok E ?up" "mkdir_ok E ?ex" "\<not> ok"
    | "mkdir_ok E ?up" "mkdir_ok E ?ex" "ok" "run_now F" "\<not> get_ocr_reader_ok E"
    unfolding reaches_export_def okw by (cases "run_now F") auto
  then show ?thesis
  proof cases
    case 1
    with assms(1,2) have "page_upload E F s = (s, [Mkdir ?up], Raised)"
      by (simp add: page_upload_def Let_def)
    then show ?thesis by simp
  next
    case 2
    with assms(1,2) have "page_upload E F s = (s, [Mkdir ?up, Mkdir ?ex], Raised)"
      by (simp add: page_upload_def Let_def)
    then show ?thesis by simp
  next
    case 3
    with assms(1,2) sv have "page_upload E F s = (s1, [Mkdir ?up, Mkdir ?ex] @ ev1, Raised)"
      by (simp add: page_upload_def Let_def)
    with f1 show ?thesis by simp
  next
    case 4
    with assms(1,2) sv have
      "page_upload E F s = (s1, [Mkdir ?up, Mkdir ?ex] @ ev1 @ [GetOcrReader], Raised)"
      by (simp add: page_upload_def Let_def)
    with f1 show ?thesis by simp
  qed
qed

text \<open>
  C2, amended. A submitted upload with at least one file reaches the export step when its
  two directories can be made, its images can all be written and, if OCR is asked for,
  the OCR reader is obtained. Such a run goes to the end, whatever the exports do: the
  exports are attempted first and the Document is upserted exactly once, after them, as
  the last call, so nothing is persisted before the export. An export that fails is
  caught; the upsert then stores \<open>word_path\<close> and \<open>excel_path\<close> unset, and with both
  exports done it stores the two paths. The Documents with other ids are as before the
  run, and a later \<open>upsert_document\<close> with the same id replaces the row, paths included.
  A run that does not reach the export step raises: it has exported nothing and upserted
  nothing, and the documents table and its index are as before.
\<close>

theorem export_then_single_upsert:
  assumes "submitted F" and "files F \<noteq> []"
  shows "if reaches_export E F
         then (\<exists>s' tr. page_upload E F s = (s', tr, Completed) \<and>
           (\<exists>pre. list_all quiet pre \<and>
              tr = pre @ export_attempts E
                     @ [UpsertDocument (new_doc_id E)
                          (if exported E then Some (word_path_of E) else None)
                          (if exported E then Some (excel_path_of E) else None)]) \<and>
           \<not> persisted_before_export tr \<and>
           map_option d_word_path (get_document s' (new_doc_id E))
             = Some (if exported E then Some (word_path_of E) else None) \<and>
           map_option d_excel_path (get_document s' (new_doc_id E))
             = Some (if exported E then Some (excel_path_of E) else None) \<and>
           (\<forall>j. j \<noteq> new_doc_id E \<longrightarrow> get_document s' j = get_document s j) \<and>
           (\<forall>doc. doc ''id'' = Some (Some (new_doc_id E)) \<longrightarrow>
              (\<exists>s''. upsert_document s' doc = Inr s'' \<and>
                     get_document s'' (new_doc_id E)
                       = Some (payload_row (Some (new_doc_id E)) doc))))
         else (\<exists>s' tr. page_upload E F s = (s', tr, Raised) \<and> list_all quiet tr \<and>
                 documents s' = documents s \<and> documents_fts s' = documents_fts s)"
proof (cases "reaches_export E F")
  case True
  let ?r = "page_upload E F s"
  have "snd (snd ?r) = Completed"
    using page_upload_reaches [OF assms True] .
  then have h: "?r = (fst ?r, fst (snd ?r), Completed)"
    by (simp add: prod_eq_iff)
  from page_upload_completed [OF h] h True show ?thesis
    by (simp only: if_True) blast
next
  case False
  from page_upload_stops [OF assms False] False show ?thesis
    by (simp only: if_False)
qed

definition env_reader_fails :: environment where
  "env_reader_fails = env_example\<lparr>get_ocr_reader_ok := False\<rparr>"

definition form_ocr_example :: upload_form where
  "form_ocr_example = form_example\<lparr>run_now := True\<rparr>"

theorem export_then_single_upsert_witness:
  "submitted form_example \<and> files form_example \<noteq> [] \<and>
   reaches_export env_export_fails form_example \<and>
   \<not> exported env_export_fails \<and>
   (\<exists>s' tr. page_upload env_export_fails form_example store_example = (s', tr, Completed) \<and>
      (\<exists>pre. list_all quiet pre \<and>
         tr = pre @ [ExportToWord (py ''data/exports/0123456789ab/0123456789ab.docx''),
                     UpsertDocument (py ''0123456789ab'') None None]) \<and>
      \<not> persisted_before_export tr \<and>
      map_option d_word_path (get_document s' (py ''0123456789ab'')) = Some None \<and>
      map_option d_excel_path (get_document s' (py ''0123456789ab'')) = Some None \<and>
      get_document s' (py ''d1'') = get_document store_example (py ''d1'') \<and>
      (\<exists>s''. upsert_document s' payload_with_paths = Inr s'' \<and>
             get_document s'' (py ''0123456789ab'')
               = Some (payload_row (Some (py ''0123456789ab'')) payload_with_paths))) \<and>
   submitted form_ocr_example \<and> files form_ocr_example \<noteq> [] \<and>
   \<not> reaches_export env_reader_fails form_ocr_example \<and>
   (\<exists>s' tr. page_upload env_reader_fails form_ocr_example store_example = (s', tr, Raised) \<and>
      list_all quiet tr \<and> documents s' = documents store_example \<and>
      documents_fts s' = documents_fts store_example)"
proof -
  have a: "submitted form_example" "files form_example \<noteq> []"
    by (simp_all add: form_example_def)
  have w: "reaches_export env_export_fails form_example"
    by (simp add: reaches_export_def writes_ok_def env_export_fails_def env_example_def
        form_example_def)
  have e: "new_doc_id env_export_fails = py ''0123456789ab''"
    "exported env_export_fails = False"
    "export_attempts env_export_fails
       = [ExportToWord (py ''data/exports/0123456789ab/0123456789ab.docx'')]"
    by (simp_all add: env_export_fails_def env_example_def exported_def export_attempts_def
        word_path_of_def export_dir_of_def path_join_def py_def)
  have p: "payload_with_paths ''id'' = Some (Some (py ''0123456789ab''))"
    by (simp add: payload_with_paths_def)
  have d: "py ''d1'' \<noteq> py ''0123456789ab''"
    by (simp add: py_def)
  have "if reaches_export env_export_fails form_example then
      (\<exists>s' tr. page_upload env_export_fails form_example store_example = (s', tr, Completed) \<and>
        (\<exists>pre. list_all quiet pre \<and>
           tr = pre @ [ExportToWord (py ''data/exports/0123456789ab/0123456789ab.docx'')]
                  @ [UpsertDocument (py ''0123456789ab'') None None]) \<and>
        \<not> persisted_before_export tr \<and>
        map_option d_word_path (get_document s' (py ''0123456789ab'')) = Some None \<and>
        map_option d_excel_path (get_document s' (py ''0123456789ab'')) = Some None \<and>
        (\<forall>j. j \<noteq> py ''0123456789ab'' \<longrightarrow> get_document s' j = get_document store_example j) \<and>
        (\<forall>doc. doc ''id'' = Some (Some (py ''0123456789ab'')) \<longrightarrow>
          (\<exists>s''. upsert_document s' doc = Inr s'' \<and>
                 get_document s'' (py ''0123456789ab'')
                   = Some (payload_row (Some (py ''0123456789ab'')) doc))))
      else (\<exists>s' tr. page_upload env_export_fails form_example store_example = (s', tr, Raised) \<and>
              list_all quiet tr \<and> documents s' = documents store_example \<and>
              documents_fts s' = documents_fts store_example)"
    using export_then_single_upsert [OF a, of env_export_fails store_example]
    unfolding e if_False .
  with w obtain s' tr where
    r: "page_upload env_export_fails form_example store_example = (s', tr, Completed)"
    and c1: "\<exists>pre. list_all quiet pre \<and>
           tr = pre @ [ExportToWord (py ''data/exports/0123456789ab/0123456789ab.docx'')]
                  @ [UpsertDocument (py ''0123456789ab'') None None]"
    and c2: "\<not> persisted_before_export tr"
    and c3: "map_option d_word_path (get_document s' (py ''0123456789ab'')) = Some None"
    and c4: "map_option d_excel_path (get_document s' (py ''0123456789ab'')) = Some None"
    and a5: "\<forall>j. j \<noteq> py ''0123456789ab'' \<longrightarrow> get_document s' j = get_document store_example j"
    and a6: "\<forall>doc. doc ''id'' = Some (Some (py ''0123456789ab'')) \<longrightarrow>
        (\<exists>s''. upsert_document s' doc = Inr s'' \<and>
               get_document s'' (py ''0123456789ab'')
                 = Some (payload_row (Some (py ''0123456789ab'')) doc))"
    by (simp only: if_True) blast
  from c1 have c1': "\<exists>pre. list_all quiet pre \<and>
         tr = pre @ [ExportToWord (py ''data/exports/0123456789ab/0123456789ab.docx''),
                     UpsertDocument (py ''0123456789ab'') None None]"
    by simp
  from a5 d have c5: "get_document s' (py ''d1'') = get_document store_example (py ''d1'')"
    by blast
  from a6 p have c6: "\<exists>s''. upsert_document s' payload_with_paths = Inr s'' \<and>
          get_document s'' (py ''0123456789ab'')
            = Some (payload_row (Some (py ''0123456789ab'')) payload_with_paths)"
    by blast
  have x: "\<not> exported env_export_fails"
    by (simp add: e)
  from r c1' c2 c3 c4 c5 c6 have first:
    "\<exists>s' tr. page_upload env_export_fails form_example store_example = (s', tr, Completed) \<and>
      (\<exists>pre. list_all quiet pre \<and>
         tr = pre @ [ExportToWord (py ''data/exports/0123456789ab/0123456789ab.docx''),
                     UpsertDocument (py ''0123456789ab'') None None]) \<and>
      \<not> persisted_before_export tr \<and>
      map_option d_word_path (get_document s' (py ''0123456789ab'')) = Some None \<and>
      map_option d_excel_path (get_document s' (py ''0123456789ab'')) = Some None \<and>
      get_document s' (py ''d1'') = get_document store_example (py ''d1'') \<and>
      (\<exists>s''. upsert_document s' payload_with_paths = Inr s'' \<and>
             get_document s'' (py ''0123456789ab'')
               = Some (payload_row (Some (py ''0123456789ab'')) payload_with_paths))"
    by blast
  have b: "submitted form_ocr_example" "files form_ocr_example \<noteq> []"
    by (simp_all add: form_ocr_example_def form_example_def)
  have n: "\<not> reaches_export env_reader_fails form_ocr_example"
    by (simp add: reaches_export_def env_reader_fails_def form_ocr_example_def)
  from export_then_single_upsert [OF b, of env_reader_fails store_example] n have second:
    "\<exists>s' tr. page_upload env_reader_fails form_ocr_example store_example = (s', tr, Raised) \<and>
      list_all quiet tr \<and> documents s' = documents store_example \<and>
      documents_fts s' = documents_fts store_example"
    by (simp only: if_False)
  from a w x first b n second show ?thesis
    by (intro conjI)
qed


end
